theory Spec2Isabelle
  imports Main
begin

section \<open>Data model\<close>

text \<open>
  The entities of \<^verbatim>\<open>src/database/models\<close> and the in-memory state of the three singleton
  services (\<^verbatim>\<open>InventoryService\<close>, \<^verbatim>\<open>OrderQueueService\<close>, \<^verbatim>\<open>FulfillmentService\<close>).
  Quantities, masses, ids and timestamps are integers, as the tables' columns and the data
  model have them, and JavaScript's numbers are modelled as unbounded integers: the code only
  adds, subtracts, multiplies and floors quotients of them, and the one place where a
  quotient is not an integer, a division by a unit mass of zero, is written out below.  Log
  output, generated primary keys and the \<^verbatim>\<open>updatedAt\<close>/\<^verbatim>\<open>shippedAt\<close> columns are left
  out, and so are failures of the store itself, with one exception: the shipments table has
  the foreign key \<^verbatim>\<open>FK_shipment_order\<close> on the order id, so inserting a shipment for an order
  id that has no row fails, which is the error \<open>ForeignKeyViolation\<close>.
\<close>

datatype item = Item (productId: int) (quantity: int)

record product_info =
  product_id :: int
  product_name :: string
  mass_g :: int

record product_entity =
  p_productId :: int
  productName :: string
  massG :: int
  quantityInStock :: int

datatype order_status = PENDING | PARTIALLY_FULFILLED | FULFILLED

record order_entity =
  orderId :: int
  requestedItems :: "item list"
  shippedItems :: "item list"
  status :: order_status
  totalShipments :: int
  createdAt :: int

record shipment_entity =
  s_orderId :: int
  s_shippedItems :: "item list"
  totalMassG :: int

datatype error =
    AlreadyInitialized
  | ProductNotFound int
  | InsufficientStock int int int
  | OrderNotFound int
  | ShipmentExceedsMaxWeight int
  | ForeignKeyViolation int

text \<open>
  The whole state: \<open>catalog\<close> and \<open>isInitialized\<close> are the fields of \<^verbatim>\<open>InventoryService\<close>,
  \<open>pendingOrders\<close> is the cache of \<^verbatim>\<open>OrderQueueService\<close>, and the three \<open>Rows\<close> fields are
  the tables behind the three repositories.
\<close>

record system =
  catalog :: "int \<rightharpoonup> product_entity"
  isInitialized :: bool
  productRows :: "int \<rightharpoonup> product_entity"
  orderRows :: "order_entity list"
  pendingOrders :: "int \<rightharpoonup> order_entity"
  shipmentRows :: "shipment_entity list"

definition initial_system :: system where
  "initial_system =
     \<lparr>catalog = Map.empty, isInitialized = False, productRows = Map.empty,
      orderRows = [], pendingOrders = Map.empty, shipmentRows = []\<rparr>"

section \<open>InventoryService\<close>

text \<open>The loop of \<^verbatim>\<open>initCatalog\<close>: find the row, overwrite or create it with stock 0, save it, cache it.\<close>

fun initCatalog_loop :: "product_info list \<Rightarrow> system \<Rightarrow> system" where
  "initCatalog_loop [] s = s"
| "initCatalog_loop (info # rest) s =
     (let product =
        (case productRows s (product_id info) of
           Some existingProduct \<Rightarrow>
             existingProduct\<lparr>productName := product_name info, massG := mass_g info,
                             quantityInStock := 0\<rparr>
         | None \<Rightarrow>
             \<lparr>p_productId = product_id info, productName = product_name info,
              massG = mass_g info, quantityInStock = 0\<rparr>)
      in initCatalog_loop rest
           (s\<lparr>productRows := (productRows s)(product_id info \<mapsto> product),
              catalog := (catalog s)(product_id info \<mapsto> product)\<rparr>))"

definition initCatalog :: "product_info list \<Rightarrow> system \<Rightarrow> error option \<times> system" where
  "initCatalog productInfo s =
     (if isInitialized s then (Some AlreadyInitialized, s)
      else (None, (initCatalog_loop productInfo (s\<lparr>catalog := Map.empty\<rparr>))\<lparr>isInitialized := True\<rparr>))"

text \<open>
  \<^verbatim>\<open>repository.save(productsToUpdate)\<close>: the list holds references to the entities of the
  catalog, so what is written is the catalog's value of each listed product at save time.
\<close>

definition saveProducts :: "int list \<Rightarrow> system \<Rightarrow> system" where
  "saveProducts ids s =
     s\<lparr>productRows := fold (\<lambda>pid rows. rows(pid := catalog s pid)) ids (productRows s)\<rparr>"

text \<open>\<^verbatim>\<open>InventoryService.processRestock\<close>; a restock entry is the pair (product_id, quantity).\<close>

fun restock_loop :: "(int \<times> int) list \<Rightarrow> system \<Rightarrow> int list \<Rightarrow> system \<times> int list" where
  "restock_loop [] s productsToUpdate = (s, productsToUpdate)"
| "restock_loop ((pid, q) # rest) s productsToUpdate =
     (case catalog s pid of
        None \<Rightarrow> restock_loop rest s productsToUpdate
      | Some product \<Rightarrow>
          restock_loop rest
            (s\<lparr>catalog := (catalog s)(pid \<mapsto> product\<lparr>quantityInStock := quantityInStock product + q\<rparr>)\<rparr>)
            (productsToUpdate @ [pid]))"

definition inventory_processRestock :: "(int \<times> int) list \<Rightarrow> system \<Rightarrow> system" where
  "inventory_processRestock restock s =
     (case restock_loop restock s [] of
        (s', productsToUpdate) \<Rightarrow>
          if productsToUpdate \<noteq> [] then saveProducts productsToUpdate s' else s')"

text \<open>
  \<^verbatim>\<open>reserveStock\<close>: one loop that checks an item and decrements the cached entity at once; a
  throw leaves the loop with the decrements made so far in place and skips the save.
\<close>

fun reserve_loop :: "item list \<Rightarrow> system \<Rightarrow> int list \<Rightarrow> error option \<times> system \<times> int list" where
  "reserve_loop [] s productsToUpdate = (None, s, productsToUpdate)"
| "reserve_loop (it # rest) s productsToUpdate =
     (case catalog s (productId it) of
        None \<Rightarrow> (Some (ProductNotFound (productId it)), s, productsToUpdate)
      | Some product \<Rightarrow>
          if quantityInStock product < quantity it
          then (Some (InsufficientStock (productId it) (quantityInStock product) (quantity it)),
                s, productsToUpdate)
          else reserve_loop rest
                 (s\<lparr>catalog := (catalog s)(productId it \<mapsto>
                        product\<lparr>quantityInStock := quantityInStock product - quantity it\<rparr>)\<rparr>)
                 (productsToUpdate @ [productId it]))"

definition reserveStock :: "item list \<Rightarrow> system \<Rightarrow> error option \<times> system" where
  "reserveStock items s =
     (case reserve_loop items s [] of
        (Some e, s', productsToUpdate) \<Rightarrow> (Some e, s')
      | (None, s', productsToUpdate) \<Rightarrow>
          (None, if productsToUpdate \<noteq> [] then saveProducts productsToUpdate s' else s'))"

definition getProduct :: "system \<Rightarrow> int \<Rightarrow> product_entity option" where
  "getProduct s pid = catalog s pid"

definition getAvailableStock :: "system \<Rightarrow> int \<Rightarrow> int" where
  "getAvailableStock s pid = (case catalog s pid of Some product \<Rightarrow> quantityInStock product | None \<Rightarrow> 0)"

definition calculateTotalMass :: "system \<Rightarrow> item list \<Rightarrow> int" where
  "calculateTotalMass s items =
     foldl (\<lambda>totalMass it. case catalog s (productId it) of
                              Some product \<Rightarrow> totalMass + massG product * quantity it
                            | None \<Rightarrow> totalMass) 0 items"

definition resetCatalog :: "system \<Rightarrow> system" where
  "resetCatalog s = s\<lparr>isInitialized := False, catalog := Map.empty\<rparr>"

section \<open>OrderQueueService\<close>

text \<open>\<^verbatim>\<open>repository.findOne({ where: { orderId } })\<close> and \<^verbatim>\<open>repository.save(order)\<close> on the orders table.\<close>

definition findOrder :: "system \<Rightarrow> int \<Rightarrow> order_entity option" where
  "findOrder s oid = find (\<lambda>row. orderId row = oid) (orderRows s)"

fun saveOrderRow :: "order_entity \<Rightarrow> order_entity list \<Rightarrow> order_entity list" where
  "saveOrderRow order [] = [order]"
| "saveOrderRow order (row # rows) =
     (if orderId row = orderId order then order # rows else row # saveOrderRow order rows)"

text \<open>
  \<^verbatim>\<open>enqueueOrder\<close>; a requested entry is the pair (product_id, quantity), and \<open>now\<close> is the
  clock reading that \<^verbatim>\<open>@CreateDateColumn\<close> stores when the row is first inserted.
\<close>

definition enqueueOrder :: "int \<Rightarrow> (int \<times> int) list \<Rightarrow> int \<Rightarrow> system \<Rightarrow> order_entity \<times> system" where
  "enqueueOrder oid requested now s =
     (let order =
        (case findOrder s oid of
           Some existing \<Rightarrow>
             existing\<lparr>requestedItems := map (\<lambda>(pid, q). Item pid q) requested, status := PENDING\<rparr>
         | None \<Rightarrow>
             \<lparr>orderId = oid, requestedItems = map (\<lambda>(pid, q). Item pid q) requested,
              shippedItems = [], status = PENDING, totalShipments = 0, createdAt = now\<rparr>)
      in (order, s\<lparr>orderRows := saveOrderRow order (orderRows s),
                    pendingOrders := (pendingOrders s)(oid \<mapsto> order)\<rparr>))"

text \<open>
  \<^verbatim>\<open>getPendingOrders\<close>: the rows with one of the two open statuses, by \<^verbatim>\<open>createdAt\<close> ascending
  (rows with equal timestamps are kept in table order); the cache is rebuilt from them.
\<close>

definition getPendingOrders :: "system \<Rightarrow> order_entity list \<times> system" where
  "getPendingOrders s =
     (let orders = sort_key createdAt
            (filter (\<lambda>row. status row = PENDING \<or> status row = PARTIALLY_FULFILLED) (orderRows s))
      in (orders, s\<lparr>pendingOrders := fold (\<lambda>order cache. cache(orderId order \<mapsto> order)) orders Map.empty\<rparr>))"

text \<open>
  The idiom the source uses three times (shipped items of an order, lines of a package,
  items of a batch): \<^verbatim>\<open>find\<close> the first line of the product; add to its quantity if there
  is one, \<^verbatim>\<open>push\<close> a new line otherwise.
\<close>

fun addItem :: "item list \<Rightarrow> item \<Rightarrow> item list" where
  "addItem [] new = [new]"
| "addItem (existing # rest) new =
     (if productId existing = productId new
      then Item (productId existing) (quantity existing + quantity new) # rest
      else existing # addItem rest new)"

definition shippedQuantity :: "order_entity \<Rightarrow> int \<Rightarrow> int" where
  "shippedQuantity order pid =
     (case find (\<lambda>it. productId it = pid) (shippedItems order) of
        Some shippedItem \<Rightarrow> quantity shippedItem
      | None \<Rightarrow> 0)"

definition isOrderFulfilled :: "order_entity \<Rightarrow> bool" where
  "isOrderFulfilled order =
     list_all (\<lambda>requestedItem.
        \<not> shippedQuantity order (productId requestedItem) < quantity requestedItem)
       (requestedItems order)"

definition getRemainingItems :: "order_entity \<Rightarrow> item list" where
  "getRemainingItems order =
     concat (map (\<lambda>requestedItem.
        let remainingQuantity =
              quantity requestedItem - shippedQuantity order (productId requestedItem)
        in if remainingQuantity > 0 then [Item (productId requestedItem) remainingQuantity] else [])
       (requestedItems order))"

definition updateOrderShipment :: "int \<Rightarrow> item list \<Rightarrow> system \<Rightarrow> error option \<times> system" where
  "updateOrderShipment oid shipped s =
     (case findOrder s oid of
        None \<Rightarrow> (Some (OrderNotFound oid), s)
      | Some order \<Rightarrow>
          let order1 = order\<lparr>shippedItems := foldl addItem (shippedItems order) shipped,
                             totalShipments := totalShipments order + 1\<rparr>;
              isFulfilled = isOrderFulfilled order1;
              updatedOrder = order1\<lparr>status := (if isFulfilled then FULFILLED else PARTIALLY_FULFILLED)\<rparr>
          in (None,
              s\<lparr>orderRows := saveOrderRow updatedOrder (orderRows s),
                pendingOrders := (if isFulfilled then (pendingOrders s)(oid := None)
                                  else (pendingOrders s)(oid \<mapsto> updatedOrder))\<rparr>))"

section \<open>GreedyFirstFitStrategy\<close>

text \<open>
  \<^verbatim>\<open>Math.floor(a / b)\<close> on integers: the floored quotient, except that JavaScript's division
  by zero gives an infinity or NaN instead of failing.
\<close>

datatype jsnum = Finite int | PosInfinity | NegInfinity | NaN

definition floor_quotient :: "int \<Rightarrow> int \<Rightarrow> jsnum" where
  "floor_quotient a b =
     (if b \<noteq> 0 then Finite (a div b)
      else if a > 0 then PosInfinity else if a < 0 then NegInfinity else NaN)"

text \<open>
  \<^verbatim>\<open>Math.min(x, n)\<close> for an integer \<open>n\<close>: \<open>None\<close> stands for the two results that are
  not integers, \<open>-Infinity\<close> and \<open>NaN\<close> (both fail the test \<^verbatim>\<open>> 0\<close>).
\<close>

fun units_min :: "jsnum \<Rightarrow> int \<Rightarrow> int option" where
  "units_min (Finite m) n = Some (min m n)"
| "units_min PosInfinity n = Some n"
| "units_min NegInfinity n = None"
| "units_min NaN n = None"

definition calculateShipmentWeight :: "system \<Rightarrow> item list \<Rightarrow> int" where
  "calculateShipmentWeight s shipment =
     foldl (\<lambda>total it. total + (case getProduct s (productId it) of
                                   Some product \<Rightarrow> massG product * quantity it
                                 | None \<Rightarrow> 0)) 0 shipment"

text \<open>
  The inner \<^verbatim>\<open>for (const shipment of shipments)\<close>: the first package that takes at least one
  more unit gets as many as fit; the result is the changed package list and the units added,
  or \<open>None\<close> when no package had room (\<^verbatim>\<open>added\<close> stays false).
\<close>

fun addToExisting ::
  "system \<Rightarrow> int \<Rightarrow> int \<Rightarrow> int \<Rightarrow> int \<Rightarrow> item list list \<Rightarrow> (item list list \<times> int) option" where
  "addToExisting s maxWeightG pid unitWeight remainingQuantity [] = None"
| "addToExisting s maxWeightG pid unitWeight remainingQuantity (shipment # rest) =
     (let currentWeight = calculateShipmentWeight s shipment;
          availableWeight = maxWeightG - currentWeight;
          maxAddableUnits = floor_quotient availableWeight unitWeight
      in case units_min maxAddableUnits remainingQuantity of
           Some unitsToAdd \<Rightarrow>
             if unitsToAdd > 0
             then Some (addItem shipment (Item pid unitsToAdd) # rest, unitsToAdd)
             else map_option (\<lambda>(rest', n). (shipment # rest', n))
                    (addToExisting s maxWeightG pid unitWeight remainingQuantity rest)
         | None \<Rightarrow>
             map_option (\<lambda>(rest', n). (shipment # rest', n))
               (addToExisting s maxWeightG pid unitWeight remainingQuantity rest))"

text \<open>
  The \<^verbatim>\<open>while (remainingQuantity > 0)\<close> loop for one item.  It need not end (a negative unit
  mass makes every new package take a negative number of units), so the result is an option
  and \<open>None\<close> means that the loop does not return.  One case has no integer result
  and is \<open>None\<close> as well: a unit mass of 0 under a ceiling that is not positive, where the
  source stores \<open>NaN\<close> or \<open>-Infinity\<close> as the quantity of the new package.
\<close>

partial_function (option) packItem ::
  "system \<Rightarrow> int \<Rightarrow> int \<Rightarrow> int \<Rightarrow> int \<Rightarrow> item list list \<Rightarrow> item list list option" where
  "packItem s maxWeightG pid unitWeight remainingQuantity shipments =
     (if remainingQuantity > 0 then
        (if floor_quotient maxWeightG unitWeight = Finite 0 then Some shipments
         else
           (case addToExisting s maxWeightG pid unitWeight remainingQuantity shipments of
              Some (shipments', unitsToAdd) \<Rightarrow>
                packItem s maxWeightG pid unitWeight (remainingQuantity - unitsToAdd) shipments'
            | None \<Rightarrow>
                (case units_min (floor_quotient maxWeightG unitWeight) remainingQuantity of
                   Some unitsForNewShipment \<Rightarrow>
                     packItem s maxWeightG pid unitWeight (remainingQuantity - unitsForNewShipment)
                       (shipments @ [[Item pid unitsForNewShipment]])
                 | None \<Rightarrow> None)))
      else Some shipments)"

declare packItem.simps [code]

text \<open>The outer \<^verbatim>\<open>for (const item of itemsWithWeight)\<close>.\<close>

fun packItems :: "system \<Rightarrow> int \<Rightarrow> (item \<times> int) list \<Rightarrow> item list list \<Rightarrow> item list list option" where
  "packItems s maxWeightG [] shipments = Some shipments"
| "packItems s maxWeightG ((it, unitWeight) # rest) shipments =
     (case packItem s maxWeightG (productId it) unitWeight (quantity it) shipments of
        None \<Rightarrow> None
      | Some shipments' \<Rightarrow> packItems s maxWeightG rest shipments')"

text \<open>
  \<^verbatim>\<open>items.map(...).filter(...).sort(...)\<close>: each item with its unit weight, known products with
  a positive quantity only, heaviest first (\<^verbatim>\<open>Array.prototype.sort\<close> is stable, as \<open>sort_key\<close> is).
\<close>

definition itemsWithWeight :: "system \<Rightarrow> item list \<Rightarrow> (item \<times> int) list" where
  "itemsWithWeight s items =
     sort_key (\<lambda>(it, unitWeight). - unitWeight)
       (filter (\<lambda>(it, unitWeight). getProduct s (productId it) \<noteq> None \<and> quantity it > 0)
          (map (\<lambda>it. (it, case getProduct s (productId it) of
                             Some product \<Rightarrow> massG product
                           | None \<Rightarrow> 0)) items))"

definition packShipment :: "system \<Rightarrow> item list \<Rightarrow> int \<Rightarrow> item list list option" where
  "packShipment s items maxWeightG = packItems s maxWeightG (itemsWithWeight s items) []"

section \<open>FulfillmentService\<close>

definition MAX_PACKAGE_WEIGHT_G :: int where
  "MAX_PACKAGE_WEIGHT_G = 1800"

definition BATCH_SIZE :: nat where
  "BATCH_SIZE = 50"

definition getShippableItems :: "system \<Rightarrow> item list \<Rightarrow> item list" where
  "getShippableItems s items =
     concat (map (\<lambda>it.
        let availableStock = getAvailableStock s (productId it);
            shippableQuantity = min (quantity it) availableStock
        in if shippableQuantity > 0 then [Item (productId it) shippableQuantity] else [])
       items)"

text \<open>
  \<^verbatim>\<open>repository.insert\<close> on the shipments table: every row must carry the id of an order row.
\<close>

definition insertShipments :: "shipment_entity list \<Rightarrow> system \<Rightarrow> error option \<times> system" where
  "insertShipments rows s =
     (case find (\<lambda>row. findOrder s (s_orderId row) = None) rows of
        Some row \<Rightarrow> (Some (ForeignKeyViolation (s_orderId row)), s)
      | None \<Rightarrow> (None, s\<lparr>shipmentRows := shipmentRows s @ rows\<rparr>))"

definition shipPackage :: "int \<Rightarrow> item list \<Rightarrow> system \<Rightarrow> error option \<times> system" where
  "shipPackage oid items s =
     (let totalMass = calculateTotalMass s items
      in if totalMass > MAX_PACKAGE_WEIGHT_G then (Some (ShipmentExceedsMaxWeight totalMass), s)
         else
           (case reserveStock items s of
              (Some e, s1) \<Rightarrow> (Some e, s1)
            | (None, s1) \<Rightarrow>
                (case insertShipments
                        [\<lparr>s_orderId = oid, s_shippedItems = items, totalMassG = totalMass\<rparr>] s1 of
                   (Some e, s2) \<Rightarrow> (Some e, s2)
                 | (None, s2) \<Rightarrow> updateOrderShipment oid items s2)))"

text \<open>The loop of \<^verbatim>\<open>attemptFulfillment\<close> over the packages; a throw of \<open>shipPackage\<close> leaves it.\<close>

fun shipPackages :: "int \<Rightarrow> item list list \<Rightarrow> system \<Rightarrow> error option \<times> system" where
  "shipPackages oid [] s = (None, s)"
| "shipPackages oid (shipmentItems # rest) s =
     (case shipPackage oid shipmentItems s of
        (Some e, s') \<Rightarrow> (Some e, s')
      | (None, s') \<Rightarrow> shipPackages oid rest s')"

text \<open>
  \<^verbatim>\<open>batchShipPackages\<close>.  \<open>collectBatch\<close> is the loop over one batch, which skips a package
  over the weight limit and merges the others into \<^verbatim>\<open>allBatchItems\<close>; \<open>processBatch\<close> is
  the rest of the batch's iteration; \<open>batchLoop\<close> is the loop over \<^verbatim>\<open>i\<close>.
\<close>

fun collectBatch ::
  "system \<Rightarrow> int \<Rightarrow> item list list \<Rightarrow> item list \<Rightarrow> shipment_entity list
     \<Rightarrow> item list \<times> shipment_entity list" where
  "collectBatch s oid [] allBatchItems shipmentData = (allBatchItems, shipmentData)"
| "collectBatch s oid (shipmentItems # rest) allBatchItems shipmentData =
     (let shipmentMass = calculateTotalMass s shipmentItems
      in if shipmentMass > MAX_PACKAGE_WEIGHT_G
         then collectBatch s oid rest allBatchItems shipmentData
         else collectBatch s oid rest (foldl addItem allBatchItems shipmentItems)
                (shipmentData @
                   [\<lparr>s_orderId = oid, s_shippedItems = shipmentItems, totalMassG = shipmentMass\<rparr>]))"

definition processBatch :: "int \<Rightarrow> item list list \<Rightarrow> system \<Rightarrow> error option \<times> system" where
  "processBatch oid batch s =
     (case collectBatch s oid batch [] [] of
        (allBatchItems, shipmentData) \<Rightarrow>
          (case (if allBatchItems \<noteq> [] then reserveStock allBatchItems s else (None, s)) of
             (Some e, s1) \<Rightarrow> (Some e, s1)
           | (None, s1) \<Rightarrow>
               (case (if shipmentData \<noteq> [] then insertShipments shipmentData s1 else (None, s1)) of
                  (Some e, s2) \<Rightarrow> (Some e, s2)
                | (None, s2) \<Rightarrow>
                    if allBatchItems \<noteq> [] then updateOrderShipment oid allBatchItems s2
                    else (None, s2))))"

function batchLoop :: "int \<Rightarrow> item list list \<Rightarrow> nat \<Rightarrow> system \<Rightarrow> error option \<times> system" where
  "batchLoop oid allShipments i s =
     (if i < length allShipments then
        (case processBatch oid (take BATCH_SIZE (drop i allShipments)) s of
           (Some e, s') \<Rightarrow> (Some e, s')
         | (None, s') \<Rightarrow> batchLoop oid allShipments (i + BATCH_SIZE) s')
      else (None, s))"
  by pat_completeness auto
termination
  by (relation "measure (\<lambda>(oid, allShipments, i, s). length allShipments - i)")
     (auto simp: BATCH_SIZE_def)

declare batchLoop.simps [simp del]

definition batchShipPackages :: "int \<Rightarrow> item list list \<Rightarrow> system \<Rightarrow> error option \<times> system" where
  "batchShipPackages oid allShipments s = batchLoop oid allShipments 0 s"

text \<open>
  \<^verbatim>\<open>attemptFulfillment\<close>: \<open>None\<close> when the packing does not return, otherwise the thrown
  error, if any, and the state.
\<close>

definition attemptFulfillment :: "order_entity \<Rightarrow> system \<Rightarrow> (error option \<times> system) option" where
  "attemptFulfillment order s =
     (let remainingItems = getRemainingItems order
      in if remainingItems = [] then Some (None, s)
         else
           let shippableItems = getShippableItems s remainingItems
           in if shippableItems = [] then Some (None, s)
              else
                (case packShipment s shippableItems MAX_PACKAGE_WEIGHT_G of
                   None \<Rightarrow> None
                 | Some shipments \<Rightarrow>
                     Some (if length shipments > 100
                           then batchShipPackages (orderId order) shipments s
                           else shipPackages (orderId order) shipments s)))"

text \<open>The loop of \<^verbatim>\<open>fulfillPendingOrders\<close> over the orders fetched at its start.\<close>

fun attemptAll :: "order_entity list \<Rightarrow> system \<Rightarrow> (error option \<times> system) option" where
  "attemptAll [] s = Some (None, s)"
| "attemptAll (order # rest) s =
     (case attemptFulfillment order s of
        None \<Rightarrow> None
      | Some (Some e, s') \<Rightarrow> Some (Some e, s')
      | Some (None, s') \<Rightarrow> attemptAll rest s')"

definition fulfillPendingOrders :: "system \<Rightarrow> (error option \<times> system) option" where
  "fulfillPendingOrders s =
     (case getPendingOrders s of (orders, s') \<Rightarrow> attemptAll orders s')"

definition processOrder ::
  "int \<Rightarrow> (int \<times> int) list \<Rightarrow> int \<Rightarrow> system \<Rightarrow> (error option \<times> system) option" where
  "processOrder oid requested now s =
     (case enqueueOrder oid requested now s of
        (orderEntity, s') \<Rightarrow> attemptFulfillment orderEntity s')"

definition processRestock :: "(int \<times> int) list \<Rightarrow> system \<Rightarrow> (error option \<times> system) option" where
  "processRestock restock s = fulfillPendingOrders (inventory_processRestock restock s)"

section \<open>Reachable states and example states\<close>

text \<open>
  The states that the operations reach from a fresh process over an empty store.  The restock
  quantities are positive, which the controller checks before it calls \<^verbatim>\<open>processRestock\<close>.
  A call of \<open>processRestock\<close> or \<open>processOrder\<close> that does not return reaches no state.
\<close>

inductive reachable :: "system \<Rightarrow> bool" where
  reachable_start: "reachable initial_system"
| reachable_initCatalog:
    "reachable s \<Longrightarrow> initCatalog productInfo s = (e, s') \<Longrightarrow> reachable s'"
| reachable_inventory_processRestock:
    "reachable s \<Longrightarrow> list_all (\<lambda>(pid, q). 0 < q) restock \<Longrightarrow>
       reachable (inventory_processRestock restock s)"
| reachable_processRestock:
    "reachable s \<Longrightarrow> list_all (\<lambda>(pid, q). 0 < q) restock \<Longrightarrow>
       processRestock restock s = Some (e, s') \<Longrightarrow> reachable s'"
| reachable_reserveStock:
    "reachable s \<Longrightarrow> reserveStock items s = (e, s') \<Longrightarrow> reachable s'"
| reachable_processOrder:
    "reachable s \<Longrightarrow> processOrder oid requested now s = Some (e, s') \<Longrightarrow> reachable s'"
| reachable_resetCatalog:
    "reachable s \<Longrightarrow> reachable (resetCatalog s)"

definition stock_nonneg :: "system \<Rightarrow> bool" where
  "stock_nonneg s = (\<forall>pid product. catalog s pid = Some product \<longrightarrow> 0 \<le> quantityInStock product)"

text \<open>A catalog of two products, and the same with five units of product 0 in stock.\<close>

definition initialised_system :: system where
  "initialised_system =
     snd (initCatalog [\<lparr>product_id = 0, product_name = ''RBC A+ Adult'', mass_g = 700\<rparr>,
                       \<lparr>product_id = 1, product_name = ''Platelets A+'', mass_g = 1000\<rparr>]
            initial_system)"

definition stocked_system :: system where
  "stocked_system = inventory_processRestock [(0, 5)] initialised_system"

text \<open>Order 1 for three units of product 0, shipped in full out of the five in stock.\<close>

definition shipped_system :: system where
  "shipped_system = snd (the (processOrder 1 [(0, 3)] 10 stocked_system))"

section \<open>Quantities and masses of item lists\<close>

text \<open>
  The quantity of one product in a list of lines, the quantity of all lines, the mass of one
  line (0 for a product outside the catalog, as in \<^verbatim>\<open>calculateTotalMass\<close>), and the
  condition that each entry of the packing loop carries the unit mass of a catalog product.
\<close>

definition qty_of :: "int \<Rightarrow> item list \<Rightarrow> int" where
  "qty_of p items = (\<Sum>it\<leftarrow>items. if productId it = p then quantity it else 0)"

definition total_quantity :: "item list \<Rightarrow> int" where
  "total_quantity items = sum_list (map quantity items)"

definition line_mass :: "system \<Rightarrow> item \<Rightarrow> int" where
  "line_mass s it = (case getProduct s (productId it) of Some product \<Rightarrow> massG product * quantity it | None \<Rightarrow> 0)"

definition known_entries :: "system \<Rightarrow> (item \<times> int) list \<Rightarrow> bool" where
  "known_entries s entries =
     (\<forall>(it, unitWeight)\<in>set entries.
         \<exists>product. getProduct s (productId it) = Some product \<and> massG product = unitWeight)"

section \<open>The order ledger: shipped against requested\<close>

text \<open>
  The requested quantity of a product is the sum over the order's requested entries of that
  product (one entry, when the ids of the entries are distinct).  \<open>order_ok\<close> is the
  invariant of one order and \<open>ledger_ok\<close> that of the table.
\<close>

definition requestedQuantity :: "order_entity \<Rightarrow> int \<Rightarrow> int" where
  "requestedQuantity order pid = qty_of pid (requestedItems order)"

definition order_ok :: "order_entity \<Rightarrow> bool" where
  "order_ok order =
     (distinct (map productId (shippedItems order))
      \<and> (\<forall>line\<in>set (requestedItems order). 0 \<le> quantity line)
      \<and> (\<forall>p. 0 \<le> qty_of p (shippedItems order)
               \<and> qty_of p (shippedItems order) \<le> qty_of p (requestedItems order)))"

definition ledger_ok :: "system \<Rightarrow> bool" where
  "ledger_ok s = (distinct (map orderId (orderRows s)) \<and> (\<forall>order\<in>set (orderRows s). order_ok order))"

text \<open>
  \<open>may_ship oid lines s\<close>: the lines fit into what order \<open>oid\<close> still lacks.
  \<open>shipped_within oid lines s s'\<close>: from \<open>s\<close> to \<open>s'\<close> only order \<open>oid\<close> changed, its
  requested items are the same and its shipped quantities grew by at most the lines.
\<close>

definition may_ship :: "int \<Rightarrow> item list \<Rightarrow> system \<Rightarrow> bool" where
  "may_ship oid lines s =
     (ledger_ok s
      \<and> (\<forall>line\<in>set lines. 0 \<le> quantity line)
      \<and> (\<exists>order. findOrder s oid = Some order
            \<and> (\<forall>p. qty_of p (shippedItems order) + qty_of p lines
                      \<le> qty_of p (requestedItems order))))"

definition shipped_within :: "int \<Rightarrow> item list \<Rightarrow> system \<Rightarrow> system \<Rightarrow> bool" where
  "shipped_within oid lines s s' =
     (ledger_ok s'
      \<and> (\<forall>other. other \<noteq> oid \<longrightarrow> findOrder s' other = findOrder s other)
      \<and> (\<exists>order order'. findOrder s oid = Some order \<and> findOrder s' oid = Some order'
            \<and> requestedItems order' = requestedItems order
            \<and> (\<forall>p. qty_of p (shippedItems order')
                      \<le> qty_of p (shippedItems order) + qty_of p lines)))"

text \<open>
  The states reached when an order id is submitted again only with a list that still covers
  what the order has shipped, and \<open>updateOrderShipment\<close> is called only with lines that the
  order still lacks.  The quantities of a submitted order are positive, which the controller
  checks before it calls \<open>processOrder\<close>.
\<close>

definition covers_shipped :: "system \<Rightarrow> int \<Rightarrow> (int \<times> int) list \<Rightarrow> bool" where
  "covers_shipped s oid requested =
     (case findOrder s oid of
        None \<Rightarrow> True
      | Some existing \<Rightarrow>
          list_all (\<lambda>line. quantity line \<le> qty_of (productId line) (map (\<lambda>(pid, q). Item pid q) requested))
            (shippedItems existing))"

inductive ledger_reachable :: "system \<Rightarrow> bool" where
  ledger_start: "ledger_reachable initial_system"
| ledger_initCatalog:
    "ledger_reachable s \<Longrightarrow> initCatalog productInfo s = (e, s') \<Longrightarrow> ledger_reachable s'"
| ledger_resetCatalog:
    "ledger_reachable s \<Longrightarrow> ledger_reachable (resetCatalog s)"
| ledger_reserveStock:
    "ledger_reachable s \<Longrightarrow> reserveStock items s = (e, s') \<Longrightarrow> ledger_reachable s'"
| ledger_inventory_processRestock:
    "ledger_reachable s \<Longrightarrow> ledger_reachable (inventory_processRestock restock s)"
| ledger_processRestock:
    "ledger_reachable s \<Longrightarrow> processRestock restock s = Some (e, s') \<Longrightarrow> ledger_reachable s'"
| ledger_enqueueOrder:
    "ledger_reachable s \<Longrightarrow> list_all (\<lambda>(pid, q). 0 < q) requested \<Longrightarrow>
       covers_shipped s oid requested \<Longrightarrow>
       enqueueOrder oid requested now s = (order, s') \<Longrightarrow> ledger_reachable s'"
| ledger_processOrder:
    "ledger_reachable s \<Longrightarrow> list_all (\<lambda>(pid, q). 0 < q) requested \<Longrightarrow>
       covers_shipped s oid requested \<Longrightarrow>
       processOrder oid requested now s = Some (e, s') \<Longrightarrow> ledger_reachable s'"
| ledger_updateOrderShipment:
    "ledger_reachable s \<Longrightarrow> findOrder s oid = Some order \<Longrightarrow>
       list_all (\<lambda>line. 0 \<le> quantity line) lines \<Longrightarrow>
       list_all (\<lambda>line. qty_of (productId line) (shippedItems order) + qty_of (productId line) lines
                          \<le> qty_of (productId line) (requestedItems order)) lines \<Longrightarrow>
       updateOrderShipment oid lines s = (e, s') \<Longrightarrow> ledger_reachable s'"

text \<open>
  Order 1 of \<open>shipped_system\<close> submitted again, once for two units (fewer than the three
  shipped) and once for four.
\<close>

definition resubmitted_system :: system where
  "resubmitted_system = snd (the (processOrder 1 [(0, 2)] 11 shipped_system))"

definition extended_system :: system where
  "extended_system = snd (the (processOrder 1 [(0, 4)] 12 shipped_system))"

text \<open>
  Five units of product 0 and one unit of product 1 in stock, and order 3, which lists
  product 1 twice (the controller accepts such a list): the state after it is enqueued, after
  its first package is shipped, and after \<open>processOrder\<close> has returned.
\<close>

definition two_stock_system :: system where
  "two_stock_system = inventory_processRestock [(0, 5), (1, 1)] initialised_system"

definition aborted_system :: system where
  "aborted_system = snd (the (processOrder 3 [(1, 1), (1, 1), (0, 5)] 30 two_stock_system))"

definition duplicate_order_system :: system where
  "duplicate_order_system = snd (enqueueOrder 3 [(1, 1), (1, 1), (0, 5)] 30 two_stock_system)"

definition first_shipped_system :: system where
  "first_shipped_system = snd (shipPackages 3 [[Item 1 1, Item 0 1]] duplicate_order_system)"


text \<open>
  101 units of product 1 (1000 g, so one unit per package) in stock, and order 2 for all of
  them enqueued.
\<close>

definition bulk_system :: system where
  "bulk_system = inventory_processRestock [(1, 101)] initialised_system"

definition queued_bulk_system :: system where
  "queued_bulk_system = snd (enqueueOrder 2 [(1, 101)] 20 bulk_system)"

text \<open>
  Order 4 on the same stock lists product 1 twice, for 101 units and for one more: the state
  after it is enqueued, and after the first two batches of its 102 packages are shipped.
\<close>

definition double_bulk_system :: system where
  "double_bulk_system = snd (enqueueOrder 4 [(1, 101), (1, 1)] 40 bulk_system)"

definition two_batches_system :: system where
  "two_batches_system = snd (batchShipPackages 4 (replicate 100 [Item 1 1]) double_bulk_system)"

section \<open>Effects of committed packages\<close>

text \<open>
  \<open>same_masses s s'\<close>: the catalog of \<open>s'\<close> has the products of \<open>s\<close> with the same unit
  masses.  \<open>shipped_more row lines row'\<close>: \<open>row'\<close> is the order \<open>row\<close> with the lines added
  to what it has shipped.  \<open>shipment_row\<close> is the row that \<^verbatim>\<open>shipPackage\<close> and
  \<^verbatim>\<open>batchShipPackages\<close> insert for a package.
\<close>

definition same_masses :: "system \<Rightarrow> system \<Rightarrow> bool" where
  "same_masses s s' = (\<forall>p. map_option massG (catalog s' p) = map_option massG (catalog s p))"

definition shipped_more :: "order_entity \<Rightarrow> item list \<Rightarrow> order_entity \<Rightarrow> bool" where
  "shipped_more row lines row' =
     (orderId row' = orderId row \<and> requestedItems row' = requestedItems row
      \<and> createdAt row' = createdAt row
      \<and> (\<forall>p. shippedQuantity row' p = shippedQuantity row p + qty_of p lines))"

definition shipment_row :: "system \<Rightarrow> int \<Rightarrow> item list \<Rightarrow> shipment_entity" where
  "shipment_row s oid lines =
     \<lparr>s_orderId = oid, s_shippedItems = lines, totalMassG = calculateTotalMass s lines\<rparr>"

text \<open>
  \<open>untouched p s s'\<close>: from \<open>s\<close> to \<open>s'\<close> nothing of product \<open>p\<close> is shipped; its stock is the
  same and every order has the shipped quantity of it that it had.
\<close>

definition untouched :: "int \<Rightarrow> system \<Rightarrow> system \<Rightarrow> bool" where
  "untouched p s s' =
     (getAvailableStock s' p = getAvailableStock s p
      \<and> (\<forall>oid row. findOrder s oid = Some row \<longrightarrow>
            (\<exists>row'. findOrder s' oid = Some row' \<and> shippedQuantity row' p = shippedQuantity row p)))"

section \<open>Runs without a reset\<close>

text \<open>
  \<open>runs_without_reset s t\<close>: the state \<open>t\<close> is what some sequence of operations other than
  \<^verbatim>\<open>resetCatalog\<close> makes of the state \<open>s\<close>.
\<close>

inductive runs_without_reset :: "system \<Rightarrow> system \<Rightarrow> bool" where
  no_step: "runs_without_reset s s"
| then_initCatalog:
    "runs_without_reset s t \<Longrightarrow> initCatalog productInfo t = (e, t') \<Longrightarrow> runs_without_reset s t'"
| then_inventory_processRestock:
    "runs_without_reset s t \<Longrightarrow> runs_without_reset s (inventory_processRestock restock t)"
| then_processRestock:
    "runs_without_reset s t \<Longrightarrow> processRestock restock t = Some (e, t') \<Longrightarrow>
       runs_without_reset s t'"
| then_reserveStock:
    "runs_without_reset s t \<Longrightarrow> reserveStock items t = (e, t') \<Longrightarrow> runs_without_reset s t'"
| then_processOrder:
    "runs_without_reset s t \<Longrightarrow> processOrder oid requested now t = Some (e, t') \<Longrightarrow>
       runs_without_reset s t'"

text \<open>A catalog whose only product has the unit mass -1, which \<^verbatim>\<open>initCatalog\<close> accepts.\<close>

definition negative_mass_system :: system where
  "negative_mass_system =
     snd (initCatalog [\<lparr>product_id = 0, product_name = ''RBC A+ Adult'', mass_g = - 1\<rparr>]
            initial_system)"

text \<open>
  Nothing is in stock, and four orders are enqueued at the times 5, 10, 20 and 30: order 6
  for product 1, order 7 for products 0 and 1, orders 8 and 9 for product 0; then one unit
  of product 0 is added to the stock.
\<close>

definition queue_system :: system where
  "queue_system =
     snd (the (processOrder 9 [(0, 3)] 30
       (snd (the (processOrder 8 [(0, 1)] 20
         (snd (the (processOrder 7 [(0, 2), (1, 1)] 10
           (snd (the (processOrder 6 [(1, 1)] 5 initialised_system)))))))))))"

definition restocked_queue_system :: system where
  "restocked_queue_system = inventory_processRestock [(0, 1)] queue_system"

text \<open>
  Orders 7 and 8 for one product that is out of stock, enqueued at the times 10 and 20, in
  three cases: order 7 lists the product twice; the product weighs 2000 g, more than a
  package may; the unit mass of the product is -1.
\<close>

definition twice_listed_system :: system where
  "twice_listed_system =
     snd (the (processOrder 8 [(0, 1)] 20
       (snd (the (processOrder 7 [(0, 1), (0, 1)] 10 initialised_system)))))"

definition heavy_waiting_system :: system where
  "heavy_waiting_system =
     snd (the (processOrder 8 [(2, 1)] 20
       (snd (the (processOrder 7 [(2, 1)] 10
         (snd (initCatalog [\<lparr>product_id = 2, product_name = ''Plasma crate'', mass_g = 2000\<rparr>]
                 initial_system)))))))"

definition negative_waiting_system :: system where
  "negative_waiting_system =
     snd (the (processOrder 8 [(0, 1)] 20
       (snd (the (processOrder 7 [(0, 1)] 10 negative_mass_system)))))"

section \<open>Properties: catalog initialisation\<close>

text \<open>No operation other than \<^verbatim>\<open>resetCatalog\<close> and \<^verbatim>\<open>initCatalog\<close> writes the flag.\<close>

lemma reserve_loop_isInitialized:
  "reserve_loop items s upd = (e, s', upd') \<Longrightarrow> isInitialized s' = isInitialized s"
proof (induction items arbitrary: s upd)
  case Nil
  then show ?case by simp
next
  case (Cons it rest)
  then show ?case by (fastforce split: option.splits if_splits)
qed

lemma reserveStock_isInitialized:
  "reserveStock items s = (e, s') \<Longrightarrow> isInitialized s' = isInitialized s"
  by (auto simp: reserveStock_def saveProducts_def
           split: prod.splits option.splits if_splits dest: reserve_loop_isInitialized)

lemma restock_loop_isInitialized:
  "restock_loop restock s upd = (s', upd') \<Longrightarrow> isInitialized s' = isInitialized s"
proof (induction restock s upd rule: restock_loop.induct)
  case (1 s upd)
  then show ?case by simp
next
  case (2 pid q rest s upd)
  then show ?case by (cases "catalog s pid") auto
qed

lemma inventory_processRestock_isInitialized:
  "isInitialized (inventory_processRestock restock s) = isInitialized s"
  by (auto simp: inventory_processRestock_def saveProducts_def
           split: prod.splits dest: restock_loop_isInitialized)

lemma insertShipments_result:
  "insertShipments rows s = (e, s') \<Longrightarrow>
     (e \<noteq> None \<and> s' = s) \<or> (e = None \<and> s' = s\<lparr>shipmentRows := shipmentRows s @ rows\<rparr>)"
  by (auto simp: insertShipments_def split: option.splits)

lemma insertShipments_isInitialized:
  "insertShipments rows s = (e, s') \<Longrightarrow> isInitialized s' = isInitialized s"
  by (auto dest: insertShipments_result)

lemma insertShipments_catalog:
  "insertShipments rows s = (e, s') \<Longrightarrow> catalog s' = catalog s"
  by (auto dest: insertShipments_result)

lemma insertShipments_orderRows:
  "insertShipments rows s = (e, s') \<Longrightarrow> orderRows s' = orderRows s"
  by (auto dest: insertShipments_result)

lemma updateOrderShipment_isInitialized:
  "updateOrderShipment oid lines s = (e, s') \<Longrightarrow> isInitialized s' = isInitialized s"
  by (auto simp: updateOrderShipment_def Let_def split: option.splits)

lemma shipPackage_isInitialized:
  "shipPackage oid lines s = (e, s') \<Longrightarrow> isInitialized s' = isInitialized s"
  by (auto simp: shipPackage_def Let_def split: if_splits prod.splits option.splits
           dest!: reserveStock_isInitialized updateOrderShipment_isInitialized
                  insertShipments_isInitialized)

lemma shipPackages_isInitialized:
  "shipPackages oid pkgs s = (e, s') \<Longrightarrow> isInitialized s' = isInitialized s"
proof (induction pkgs arbitrary: s)
  case Nil
  then show ?case by simp
next
  case (Cons pkg rest)
  obtain e1 s1 where one: "shipPackage oid pkg s = (e1, s1)"
    by (cases "shipPackage oid pkg s") auto
  from shipPackage_isInitialized [OF one] have "isInitialized s1 = isInitialized s" .
  with Cons.prems one Cons.IH [of s1] show ?case by (cases e1) auto
qed

lemma processBatch_isInitialized:
  "processBatch oid batch s = (e, s') \<Longrightarrow> isInitialized s' = isInitialized s"
  by (auto simp: processBatch_def Let_def split: if_splits prod.splits option.splits
           dest!: reserveStock_isInitialized updateOrderShipment_isInitialized
                  insertShipments_isInitialized)

lemma batchLoop_isInitialized:
  "batchLoop oid pkgs i s = (e, s') \<Longrightarrow> isInitialized s' = isInitialized s"
proof (induction oid pkgs i s rule: batchLoop.induct)
  case (1 oid pkgs i s)
  show ?case
  proof (cases "i < length pkgs")
    case False
    with "1.prems" show ?thesis by (simp add: batchLoop.simps [of oid pkgs i s])
  next
    case True
    obtain e1 s1 where one: "processBatch oid (take BATCH_SIZE (drop i pkgs)) s = (e1, s1)"
      by (cases "processBatch oid (take BATCH_SIZE (drop i pkgs)) s") auto
    from processBatch_isInitialized [OF one] have same: "isInitialized s1 = isInitialized s" .
    show ?thesis
    proof (cases e1)
      case None
      with "1.prems" True one have "batchLoop oid pkgs (i + BATCH_SIZE) s1 = (e, s')"
        by (simp add: batchLoop.simps [of oid pkgs i s])
      from "1.IH" [OF True one [symmetric] None this] same show ?thesis by simp
    next
      case (Some err)
      with "1.prems" True one same show ?thesis by (simp add: batchLoop.simps [of oid pkgs i s])
    qed
  qed
qed

lemma attemptFulfillment_isInitialized:
  "attemptFulfillment order s = Some (e, s') \<Longrightarrow> isInitialized s' = isInitialized s"
  by (auto simp: attemptFulfillment_def Let_def batchShipPackages_def
           split: if_splits option.splits
           dest: batchLoop_isInitialized shipPackages_isInitialized)

lemma attemptAll_isInitialized:
  "attemptAll orders s = Some (e, s') \<Longrightarrow> isInitialized s' = isInitialized s"
proof (induction orders arbitrary: s)
  case Nil
  then show ?case by simp
next
  case (Cons order rest)
  from Cons.prems obtain e1 s1 where one: "attemptFulfillment order s = Some (e1, s1)"
    by (auto split: option.splits)
  from attemptFulfillment_isInitialized [OF one] have "isInitialized s1 = isInitialized s" .
  with Cons.prems one Cons.IH [of s1] show ?case by (cases e1) auto
qed

lemma processRestock_isInitialized:
  "processRestock restock s = Some (e, s') \<Longrightarrow> isInitialized s' = isInitialized s"
  by (auto simp: processRestock_def fulfillPendingOrders_def getPendingOrders_def Let_def
           inventory_processRestock_isInitialized
           dest!: attemptAll_isInitialized)

lemma processOrder_isInitialized:
  "processOrder oid requested now s = Some (e, s') \<Longrightarrow> isInitialized s' = isInitialized s"
  by (auto simp: processOrder_def enqueueOrder_def Let_def
           dest!: attemptFulfillment_isInitialized)

lemma runs_without_reset_isInitialized:
  "runs_without_reset s t \<Longrightarrow> isInitialized s \<Longrightarrow> isInitialized t"
proof (induction rule: runs_without_reset.induct)
  case (no_step s)
  then show ?case .
next
  case (then_initCatalog s t productInfo e t')
  then show ?case by (auto simp: initCatalog_def split: if_splits)
next
  case (then_inventory_processRestock s t restock)
  then show ?case by (simp add: inventory_processRestock_isInitialized)
next
  case (then_processRestock s t restock e t')
  then show ?case by (simp add: processRestock_isInitialized)
next
  case (then_reserveStock s t items e t')
  then show ?case by (simp add: reserveStock_isInitialized)
next
  case (then_processOrder s t oid requested now e t')
  then show ?case by (simp add: processOrder_isInitialized)
qed

text \<open>
  C8: once \<open>initCatalog\<close> has succeeded and no reset has run since, whatever else has, a
  further call with any product list fails with \<open>AlreadyInitialized\<close> and returns the state
  it was called in, unchanged: the catalog, every stock and the flag.  With no operation in
  between, that is the state the first call left.
\<close>

theorem initCatalog_second_call_fails:
  assumes "initCatalog productInfo s = (None, s1)" and "runs_without_reset s1 s2"
  shows "isInitialized s2 \<and> initCatalog productInfo' s2 = (Some AlreadyInitialized, s2)"
proof -
  from assms(1) have "isInitialized s1"
    by (auto simp: initCatalog_def split: if_splits)
  with assms(2) have "isInitialized s2" by (rule runs_without_reset_isInitialized)
  then show ?thesis by (simp add: initCatalog_def)
qed

theorem initCatalog_second_call_fails_witness:
  "initCatalog [\<lparr>product_id = 0, product_name = ''RBC A+ Adult'', mass_g = 700\<rparr>,
                \<lparr>product_id = 1, product_name = ''Platelets A+'', mass_g = 1000\<rparr>]
     initial_system = (None, initialised_system)
   \<and> runs_without_reset initialised_system initialised_system
   \<and> initCatalog [\<lparr>product_id = 5, product_name = ''PLT'', mass_g = 200\<rparr>] initialised_system
       = (Some AlreadyInitialized, initialised_system)
   \<and> runs_without_reset initialised_system stocked_system
   \<and> initCatalog [\<lparr>product_id = 5, product_name = ''PLT'', mass_g = 200\<rparr>] stocked_system
       = (Some AlreadyInitialized, stocked_system)"
proof -
  have first: "initCatalog [\<lparr>product_id = 0, product_name = ''RBC A+ Adult'', mass_g = 700\<rparr>,
                \<lparr>product_id = 1, product_name = ''Platelets A+'', mass_g = 1000\<rparr>]
     initial_system = (None, initialised_system)"
    by (simp add: initialised_system_def initCatalog_def initial_system_def)
  have same: "runs_without_reset initialised_system initialised_system"
    by (rule no_step)
  then have later: "runs_without_reset initialised_system stocked_system"
    unfolding stocked_system_def by (rule then_inventory_processRestock)
  from initCatalog_second_call_fails [OF first same] initCatalog_second_call_fails [OF first later]
    first same later
  show ?thesis by simp
qed

section \<open>Properties: stock is never negative\<close>

lemma saveProducts_catalog [simp]: "catalog (saveProducts ids s) = catalog s"
  by (simp add: saveProducts_def)

lemma saveProducts_orderRows [simp]: "orderRows (saveProducts ids s) = orderRows s"
  by (simp add: saveProducts_def)

lemma saveProducts_shipmentRows [simp]: "shipmentRows (saveProducts ids s) = shipmentRows s"
  by (simp add: saveProducts_def)

lemma reserve_loop_nonneg:
  "stock_nonneg s \<Longrightarrow> reserve_loop items s upd = (e, s', upd') \<Longrightarrow> stock_nonneg s'"
proof (induction items arbitrary: s upd)
  case Nil
  then show ?case by simp
next
  case (Cons it rest)
  show ?case
  proof (cases "catalog s (productId it)")
    case None
    with Cons.prems show ?thesis by simp
  next
    case (Some product)
    show ?thesis
    proof (cases "quantityInStock product < quantity it")
      case True
      with Some Cons.prems show ?thesis by simp
    next
      case False
      let ?s1 = "s\<lparr>catalog := (catalog s)(productId it \<mapsto>
                        product\<lparr>quantityInStock := quantityInStock product - quantity it\<rparr>)\<rparr>"
      from False Cons.prems(1) have "stock_nonneg ?s1"
        by (auto simp: stock_nonneg_def)
      moreover from Some False Cons.prems(2)
      have "reserve_loop rest ?s1 (upd @ [productId it]) = (e, s', upd')" by simp
      ultimately show ?thesis by (rule Cons.IH)
    qed
  qed
qed

lemma stock_nonneg_catalog: "catalog s' = catalog s \<Longrightarrow> stock_nonneg s' = stock_nonneg s"
  by (simp add: stock_nonneg_def)

lemma reserveStock_nonneg:
  assumes "stock_nonneg s" and "reserveStock items s = (e, s')"
  shows "stock_nonneg s'"
proof -
  obtain e1 s1 upd1 where loop: "reserve_loop items s [] = (e1, s1, upd1)"
    by (cases "reserve_loop items s []") auto
  from reserve_loop_nonneg [OF assms(1) loop] have "stock_nonneg s1" .
  moreover have "catalog s' = catalog s1"
    using assms(2) unfolding reserveStock_def loop
    by (cases e1) (auto split: if_splits)
  ultimately show ?thesis by (simp add: stock_nonneg_def)
qed

lemma restock_loop_nonneg:
  "stock_nonneg s \<Longrightarrow> list_all (\<lambda>(pid, q). 0 < q) restock \<Longrightarrow>
     restock_loop restock s upd = (s', upd') \<Longrightarrow> stock_nonneg s'"
proof (induction restock s upd rule: restock_loop.induct)
  case (1 s upd)
  then show ?case by simp
next
  case (2 pid q rest s upd)
  show ?case
  proof (cases "catalog s pid")
    case None
    with 2 show ?thesis by simp
  next
    case (Some product)
    let ?s1 = "s\<lparr>catalog := (catalog s)(pid \<mapsto> product\<lparr>quantityInStock := quantityInStock product + q\<rparr>)\<rparr>"
    from 2(3,4) Some have "stock_nonneg ?s1"
      by (auto simp: stock_nonneg_def)
    with 2 Some show ?thesis by simp
  qed
qed

lemma inventory_processRestock_nonneg:
  assumes "stock_nonneg s" and "list_all (\<lambda>(pid, q). 0 < q) restock"
  shows "stock_nonneg (inventory_processRestock restock s)"
proof -
  obtain s1 upd1 where loop: "restock_loop restock s [] = (s1, upd1)"
    by (cases "restock_loop restock s []") auto
  from restock_loop_nonneg [OF assms loop] have "stock_nonneg s1" .
  then show ?thesis
    by (simp add: inventory_processRestock_def loop stock_nonneg_def)
qed

lemma initCatalog_loop_nonneg:
  "stock_nonneg s \<Longrightarrow> stock_nonneg (initCatalog_loop productInfo s)"
proof (induction productInfo arbitrary: s)
  case Nil
  then show ?case by simp
next
  case (Cons info rest)
  show ?case
    unfolding initCatalog_loop.simps Let_def
    by (rule Cons.IH) (use Cons.prems in \<open>auto simp: stock_nonneg_def split: option.splits\<close>)
qed

lemma initCatalog_nonneg:
  "stock_nonneg s \<Longrightarrow> initCatalog productInfo s = (e, s') \<Longrightarrow> stock_nonneg s'"
proof -
  assume a: "stock_nonneg s" and b: "initCatalog productInfo s = (e, s')"
  have "stock_nonneg (s\<lparr>catalog := Map.empty\<rparr>)" by (simp add: stock_nonneg_def)
  from initCatalog_loop_nonneg [OF this, of productInfo] a b show ?thesis
    by (auto simp: initCatalog_def stock_nonneg_def split: if_splits)
qed

lemma updateOrderShipment_catalog:
  "updateOrderShipment oid shipped s = (e, s') \<Longrightarrow> catalog s' = catalog s"
  by (auto simp: updateOrderShipment_def Let_def split: option.splits)

lemma shipPackage_nonneg:
  assumes "stock_nonneg s" and "shipPackage oid items s = (e, s')"
  shows "stock_nonneg s'"
proof (cases "calculateTotalMass s items > MAX_PACKAGE_WEIGHT_G")
  case True
  with assms show ?thesis by (simp add: shipPackage_def)
next
  case False
  obtain e1 s1 where r: "reserveStock items s = (e1, s1)"
    by (cases "reserveStock items s") auto
  from reserveStock_nonneg [OF assms(1) r] have s1: "stock_nonneg s1" .
  show ?thesis
  proof (cases e1)
    case None
    with assms(2) False r have "catalog s' = catalog s1"
      by (auto simp: shipPackage_def split: prod.splits option.splits
               dest!: updateOrderShipment_catalog insertShipments_catalog)
    with s1 show ?thesis by (simp add: stock_nonneg_def)
  next
    case (Some a)
    with assms(2) False r s1 show ?thesis by (simp add: shipPackage_def)
  qed
qed

lemma shipPackages_nonneg:
  "stock_nonneg s \<Longrightarrow> shipPackages oid pkgs s = (e, s') \<Longrightarrow> stock_nonneg s'"
proof (induction pkgs arbitrary: s)
  case Nil
  then show ?case by simp
next
  case (Cons pkg rest)
  obtain e1 s1 where r: "shipPackage oid pkg s = (e1, s1)"
    by (cases "shipPackage oid pkg s") auto
  from shipPackage_nonneg [OF Cons.prems(1) r] have s1: "stock_nonneg s1" .
  show ?case
  proof (cases e1)
    case None
    with Cons.prems(2) r have "shipPackages oid rest s1 = (e, s')" by simp
    with s1 show ?thesis by (rule Cons.IH)
  next
    case (Some a)
    with Cons.prems(2) r s1 show ?thesis by simp
  qed
qed

lemma processBatch_nonneg:
  assumes "stock_nonneg s" and "processBatch oid batch s = (e, s')"
  shows "stock_nonneg s'"
proof -
  obtain items data where c: "collectBatch s oid batch [] [] = (items, data)"
    by (cases "collectBatch s oid batch [] []") auto
  obtain e1 s1 where r: "(if items \<noteq> [] then reserveStock items s else (None, s)) = (e1, s1)"
    by (cases "if items \<noteq> [] then reserveStock items s else (None, s)") auto
  have s1: "stock_nonneg s1"
    using r assms(1) by (auto split: if_splits dest: reserveStock_nonneg)
  show ?thesis
  proof (cases e1)
    case None
    with assms(2) c r have "catalog s' = catalog s1"
      by (auto simp: processBatch_def Let_def split: if_splits prod.splits option.splits
               dest!: updateOrderShipment_catalog insertShipments_catalog)
    with s1 show ?thesis by (simp add: stock_nonneg_def)
  next
    case (Some a)
    with assms(2) c r s1 show ?thesis by (simp add: processBatch_def)
  qed
qed

lemma batchLoop_nonneg:
  "stock_nonneg s \<Longrightarrow> batchLoop oid pkgs i s = (e, s') \<Longrightarrow> stock_nonneg s'"
proof (induction oid pkgs i s rule: batchLoop.induct)
  case (1 oid pkgs i s)
  show ?case
  proof (cases "i < length pkgs")
    case False
    with 1(2,3) show ?thesis by (simp add: batchLoop.simps [of oid pkgs i s])
  next
    case True
    obtain e1 s1 where r: "processBatch oid (take BATCH_SIZE (drop i pkgs)) s = (e1, s1)"
      by (cases "processBatch oid (take BATCH_SIZE (drop i pkgs)) s") auto
    from processBatch_nonneg [OF 1(2) r] have s1: "stock_nonneg s1" .
    show ?thesis
    proof (cases e1)
      case None
      with 1(3) True r have "batchLoop oid pkgs (i + BATCH_SIZE) s1 = (e, s')"
        by (simp add: batchLoop.simps [of oid pkgs i s])
      with 1(1) [OF True r [symmetric] None s1] show ?thesis by simp
    next
      case (Some a)
      with 1(3) True r s1 show ?thesis by (simp add: batchLoop.simps [of oid pkgs i s])
    qed
  qed
qed


lemma attemptFulfillment_nonneg:
  assumes "stock_nonneg s" and "attemptFulfillment order s = Some (e, s')"
  shows "stock_nonneg s'"
  using assms
  by (auto simp: attemptFulfillment_def Let_def batchShipPackages_def
           split: if_splits option.splits
           dest: batchLoop_nonneg shipPackages_nonneg)

lemma attemptAll_nonneg:
  "stock_nonneg s \<Longrightarrow> attemptAll orders s = Some (e, s') \<Longrightarrow> stock_nonneg s'"
proof (induction orders arbitrary: s)
  case Nil
  then show ?case by simp
next
  case (Cons order rest)
  from Cons.prems(2) obtain e1 s1 where a: "attemptFulfillment order s = Some (e1, s1)"
    by (auto split: option.splits)
  from attemptFulfillment_nonneg [OF Cons.prems(1) a] have s1: "stock_nonneg s1" .
  show ?case
  proof (cases e1)
    case None
    with Cons.prems(2) a have "attemptAll rest s1 = Some (e, s')" by simp
    with s1 show ?thesis by (rule Cons.IH)
  next
    case (Some x)
    with Cons.prems(2) a s1 show ?thesis by simp
  qed
qed

lemma fulfillPendingOrders_nonneg:
  assumes "stock_nonneg s" and "fulfillPendingOrders s = Some (e, s')"
  shows "stock_nonneg s'"
proof -
  obtain orders s1 where g: "getPendingOrders s = (orders, s1)"
    by (cases "getPendingOrders s") auto
  then have "catalog s1 = catalog s"
    by (auto simp: getPendingOrders_def Let_def)
  with assms(1) have "stock_nonneg s1" by (simp add: stock_nonneg_def)
  moreover from assms(2) g have "attemptAll orders s1 = Some (e, s')"
    by (simp add: fulfillPendingOrders_def)
  ultimately show ?thesis by (rule attemptAll_nonneg)
qed

lemma processOrder_nonneg:
  assumes "stock_nonneg s" and "processOrder oid requested now s = Some (e, s')"
  shows "stock_nonneg s'"
proof -
  obtain order s1 where q: "enqueueOrder oid requested now s = (order, s1)"
    by (cases "enqueueOrder oid requested now s") auto
  then have "catalog s1 = catalog s"
    by (auto simp: enqueueOrder_def Let_def)
  with assms(1) have "stock_nonneg s1" by (simp add: stock_nonneg_def)
  moreover from assms(2) q have "attemptFulfillment order s1 = Some (e, s')"
    by (simp add: processOrder_def)
  ultimately show ?thesis by (rule attemptFulfillment_nonneg)
qed

lemma reachable_stock_nonneg: "reachable s \<Longrightarrow> stock_nonneg s"
proof (induction rule: reachable.induct)
  case reachable_start
  show ?case by (simp add: stock_nonneg_def initial_system_def)
next
  case (reachable_initCatalog s productInfo e s')
  then show ?case by (blast intro: initCatalog_nonneg)
next
  case (reachable_inventory_processRestock s restock)
  then show ?case by (blast intro: inventory_processRestock_nonneg)
next
  case (reachable_processRestock s restock e s')
  then show ?case
    unfolding processRestock_def
    by (blast intro: fulfillPendingOrders_nonneg inventory_processRestock_nonneg)
next
  case (reachable_reserveStock s items e s')
  then show ?case by (blast intro: reserveStock_nonneg)
next
  case (reachable_processOrder s oid requested now e s')
  then show ?case by (blast intro: processOrder_nonneg)
next
  case (reachable_resetCatalog s)
  show ?case by (simp add: stock_nonneg_def resetCatalog_def)
qed

text \<open>
  C9: in every state reached through \<open>initCatalog\<close>, \<open>processRestock\<close>, \<open>reserveStock\<close>,
  \<open>processOrder\<close> and \<open>resetCatalog\<close>, the stock of every product of the catalog is at
  least 0, so \<open>getAvailableStock\<close> is never negative, and for a product id outside the
  catalog \<open>getAvailableStock\<close> returns 0.
\<close>

theorem stock_never_negative:
  "reachable s \<Longrightarrow>
     (\<forall>pid product. catalog s pid = Some product \<longrightarrow> 0 \<le> quantityInStock product)
     \<and> (\<forall>pid. 0 \<le> getAvailableStock s pid)
     \<and> (\<forall>pid. catalog s pid = None \<longrightarrow> getAvailableStock s pid = 0)"
  using reachable_stock_nonneg [of s]
  by (auto simp: stock_nonneg_def getAvailableStock_def split: option.splits)

theorem stock_never_negative_witness:
  "reachable (snd (the (processRestock [(0, 5)] initialised_system)))
   \<and> (\<forall>pid. 0 \<le> getAvailableStock (snd (the (processRestock [(0, 5)] initialised_system))) pid)
   \<and> getAvailableStock (snd (the (processRestock [(0, 5)] initialised_system))) 0 = 5
   \<and> catalog (snd (the (processRestock [(0, 5)] initialised_system))) 7 = None
   \<and> getAvailableStock (snd (the (processRestock [(0, 5)] initialised_system))) 7 = 0"
proof -
  have run: "processRestock [(0, 5)] initialised_system
               = Some (None, snd (the (processRestock [(0, 5)] initialised_system)))"
    by (simp add: processRestock_def fulfillPendingOrders_def getPendingOrders_def
          inventory_processRestock_def initialised_system_def initCatalog_def
          initial_system_def saveProducts_def Let_def)
  have "reachable initialised_system"
    unfolding initialised_system_def
    by (rule reachable_initCatalog [OF reachable_start]) (rule surjective_pairing)
  then have r: "reachable (snd (the (processRestock [(0, 5)] initialised_system)))"
    by (rule reachable_processRestock [OF _ _ run]) simp
  have "getAvailableStock (snd (the (processRestock [(0, 5)] initialised_system))) 0 = 5"
    and "catalog (snd (the (processRestock [(0, 5)] initialised_system))) 7 = None"
    by (simp_all add: processRestock_def fulfillPendingOrders_def getPendingOrders_def
          inventory_processRestock_def initialised_system_def initCatalog_def
          initial_system_def saveProducts_def getAvailableStock_def Let_def)
  with stock_never_negative [OF r] r show ?thesis by simp
qed

section \<open>Properties: reserving stock\<close>

text \<open>
  C1 (the source does not do this): \<open>reserveStock\<close> is meant to leave every stock as it was
  when one item is invalid.  With five units of product 0 in stock, reserving two of them
  together with one unit of the unknown product 99 fails with \<open>ProductNotFound 99\<close>, but the
  cached stock of product 0 has gone from 5 to 3; the stored row still says 5.
\<close>

theorem reserveStock_partial_decrement:
  "fst (reserveStock [Item 0 2, Item 99 1] stocked_system) = Some (ProductNotFound 99)
   \<and> getAvailableStock stocked_system 0 = 5
   \<and> getAvailableStock (snd (reserveStock [Item 0 2, Item 99 1] stocked_system)) 0 = 3
   \<and> map_option quantityInStock
         (productRows (snd (reserveStock [Item 0 2, Item 99 1] stocked_system)) 0) = Some 5"
  by (simp add: reserveStock_def stocked_system_def inventory_processRestock_def
        initialised_system_def initCatalog_def initial_system_def saveProducts_def
        getAvailableStock_def Let_def)

section \<open>Properties: enqueueing an order again\<close>

lemma find_saveOrderRow_same:
  "orderId order = oid \<Longrightarrow> find (\<lambda>row. orderId row = oid) (saveOrderRow order rows) = Some order"
  by (induction rows) auto

lemma find_saveOrderRow_other:
  "orderId order \<noteq> oid \<Longrightarrow>
     find (\<lambda>row. orderId row = oid) (saveOrderRow order rows) = find (\<lambda>row. orderId row = oid) rows"
  by (induction rows) auto

lemma map_orderId_saveOrderRow:
  "find (\<lambda>row. orderId row = orderId order) rows = Some found \<Longrightarrow>
     map orderId (saveOrderRow order rows) = map orderId rows"
  by (induction rows) (auto split: if_splits)

lemma findOrder_orderId: "findOrder s oid = Some order \<Longrightarrow> orderId order = oid"
  by (auto simp: findOrder_def find_Some_iff)

text \<open>
  C10: \<open>enqueueOrder\<close> on an order id that has a row returns and stores that row with the
  requested items replaced and the status \<open>PENDING\<close>; its shipped items, shipment count,
  creation timestamp and id are the old ones, and no other row, nor the catalog or the
  shipments, changes.
\<close>

theorem enqueueOrder_existing_order:
  assumes "findOrder s oid = Some existing"
  shows "fst (enqueueOrder oid requested now s)
           = existing\<lparr>requestedItems := map (\<lambda>(pid, q). Item pid q) requested, status := PENDING\<rparr>
         \<and> findOrder (snd (enqueueOrder oid requested now s)) oid
             = Some (existing\<lparr>requestedItems := map (\<lambda>(pid, q). Item pid q) requested,
                              status := PENDING\<rparr>)
         \<and> shippedItems (fst (enqueueOrder oid requested now s)) = shippedItems existing
         \<and> totalShipments (fst (enqueueOrder oid requested now s)) = totalShipments existing
         \<and> createdAt (fst (enqueueOrder oid requested now s)) = createdAt existing
         \<and> orderId (fst (enqueueOrder oid requested now s)) = orderId existing
         \<and> (\<forall>other. other \<noteq> oid \<longrightarrow>
               findOrder (snd (enqueueOrder oid requested now s)) other = findOrder s other)
         \<and> map orderId (orderRows (snd (enqueueOrder oid requested now s))) = map orderId (orderRows s)
         \<and> catalog (snd (enqueueOrder oid requested now s)) = catalog s
         \<and> shipmentRows (snd (enqueueOrder oid requested now s)) = shipmentRows s"
proof -
  let ?order = "existing\<lparr>requestedItems := map (\<lambda>(pid, q). Item pid q) requested, status := PENDING\<rparr>"
  from assms have id: "orderId ?order = oid" by (simp add: findOrder_orderId)
  have e: "enqueueOrder oid requested now s
             = (?order, s\<lparr>orderRows := saveOrderRow ?order (orderRows s),
                           pendingOrders := (pendingOrders s)(oid \<mapsto> ?order)\<rparr>)"
    using assms by (simp add: enqueueOrder_def Let_def)
  have ids: "map orderId (saveOrderRow ?order (orderRows s)) = map orderId (orderRows s)"
    using assms unfolding findOrder_def
    by (intro map_orderId_saveOrderRow [of _ _ existing]) (simp add: id)
  show ?thesis
    unfolding e using id ids
    by (simp add: findOrder_def find_saveOrderRow_same find_saveOrderRow_other)
qed

theorem enqueueOrder_existing_order_witness:
  "findOrder shipped_system 1
     = Some \<lparr>orderId = 1, requestedItems = [Item 0 3], shippedItems = [Item 0 3],
              status = FULFILLED, totalShipments = 2, createdAt = 10\<rparr>
   \<and> fst (enqueueOrder 1 [(0, 2)] 11 shipped_system)
     = \<lparr>orderId = 1, requestedItems = [Item 0 2], shippedItems = [Item 0 3],
        status = PENDING, totalShipments = 2, createdAt = 10\<rparr>"
proof -
  have h: "findOrder shipped_system 1
     = Some \<lparr>orderId = 1, requestedItems = [Item 0 3], shippedItems = [Item 0 3],
              status = FULFILLED, totalShipments = 2, createdAt = 10\<rparr>"
    by code_simp
  from enqueueOrder_existing_order [OF h, of "[(0, 2)]" 11] h show ?thesis by simp
qed

section \<open>Properties: packing\<close>

lemma foldl_plus_sum: "foldl (\<lambda>total it. total + f it) a xs = a + sum_list (map f xs)"
  for a :: int
  by (induction xs arbitrary: a) (auto simp: add.assoc)

lemma calculateShipmentWeight_sum:
  "calculateShipmentWeight s shipment = sum_list (map (line_mass s) shipment)"
  unfolding calculateShipmentWeight_def line_mass_def
  by (simp add: foldl_plus_sum)

lemma calculateTotalMass_sum:
  "calculateTotalMass s items = sum_list (map (line_mass s) items)"
proof -
  have "(\<lambda>totalMass it. case catalog s (productId it) of Some product \<Rightarrow> totalMass + massG product * quantity it | None \<Rightarrow> totalMass)
        = (\<lambda>totalMass it. totalMass + line_mass s it)"
    by (auto simp: line_mass_def getProduct_def fun_eq_iff split: option.splits)
  then show ?thesis
    unfolding calculateTotalMass_def by (simp add: foldl_plus_sum)
qed

lemma weight_addItem:
  "getProduct s pid = Some product \<Longrightarrow>
     calculateShipmentWeight s (addItem shipment (Item pid n))
       = calculateShipmentWeight s shipment + massG product * n"
  unfolding calculateShipmentWeight_sum
  by (induction shipment) (auto simp: line_mass_def distrib_left)

lemma qty_of_addItem:
  "qty_of p (addItem items it) = qty_of p items + (if productId it = p then quantity it else 0)"
  unfolding qty_of_def by (induction items) auto

lemma total_quantity_addItem:
  "total_quantity (addItem items it) = total_quantity items + quantity it"
  unfolding total_quantity_def by (induction items) auto

lemma addItem_positive:
  "\<forall>x\<in>set items. 0 < quantity x \<Longrightarrow> 0 < quantity it \<Longrightarrow> \<forall>x\<in>set (addItem items it). 0 < quantity x"
  by (induction items) auto

lemma addToExisting_Some:
  "addToExisting s maxWeightG pid unitWeight remainingQuantity shipments = Some (shipments', n) \<Longrightarrow>
     \<exists>before shipment after.
        shipments = before @ shipment # after
        \<and> shipments' = before @ addItem shipment (Item pid n) # after
        \<and> 0 < n
        \<and> units_min (floor_quotient (maxWeightG - calculateShipmentWeight s shipment) unitWeight)
              remainingQuantity = Some n"
proof (induction shipments arbitrary: shipments')
  case Nil
  then show ?case by simp
next
  case (Cons sh rest)
  let ?u = "units_min (floor_quotient (maxWeightG - calculateShipmentWeight s sh) unitWeight) remainingQuantity"
  show ?case
  proof (cases "\<exists>k. ?u = Some k \<and> 0 < k")
    case True
    then obtain k where k: "?u = Some k" "0 < k" by blast
    with Cons.prems have "shipments' = addItem sh (Item pid n) # rest" "n = k"
      by (auto simp: Let_def)
    with k show ?thesis by (intro exI [of _ "[]"] exI [of _ sh] exI [of _ rest]) simp
  next
    case False
    with Cons.prems obtain rest' where
      r: "addToExisting s maxWeightG pid unitWeight remainingQuantity rest = Some (rest', n)"
      and s': "shipments' = sh # rest'"
      by (auto simp: Let_def split: option.splits if_splits)
    from Cons.IH [OF r] obtain before shipment after where
      "rest = before @ shipment # after"
      "rest' = before @ addItem shipment (Item pid n) # after"
      "0 < n"
      "units_min (floor_quotient (maxWeightG - calculateShipmentWeight s shipment) unitWeight)
              remainingQuantity = Some n"
      by blast
    with s' show ?thesis
      by (intro exI [of _ "sh # before"] exI [of _ shipment] exI [of _ after]) simp
  qed
qed

lemma units_min_le: "units_min x n = Some k \<Longrightarrow> k \<le> n"
  by (cases x) auto


lemma units_fit:
  assumes "0 \<le> unitWeight" and "units_min (floor_quotient a unitWeight) remainingQuantity = Some n"
  shows "unitWeight * n \<le> a"
proof (cases "unitWeight = 0")
  case True
  with assms(2) show ?thesis
    by (auto simp: floor_quotient_def split: if_splits)
next
  case False
  with assms(1) have pos: "0 < unitWeight" by simp
  with assms(2) have "n \<le> a div unitWeight"
    by (auto simp: floor_quotient_def)
  with pos have "unitWeight * n \<le> unitWeight * (a div unitWeight)"
    by (simp add: mult_left_mono)
  also have "\<dots> \<le> a"
    using pos by (metis mult_div_mod_eq pos_mod_sign add_increasing2 order_refl)
  finally show ?thesis .
qed

lemma new_units_positive:
  assumes "0 \<le> unitWeight" and "0 < maxWeightG" and "0 < remainingQuantity"
    and "floor_quotient maxWeightG unitWeight \<noteq> Finite 0"
    and "units_min (floor_quotient maxWeightG unitWeight) remainingQuantity = Some n"
  shows "0 < n"
proof (cases "unitWeight = 0")
  case True
  with assms show ?thesis by (auto simp: floor_quotient_def split: if_splits)
next
  case False
  with assms(1) have pos: "0 < unitWeight" by simp
  with assms(2) have "0 \<le> maxWeightG div unitWeight"
    by (simp add: pos_imp_zdiv_nonneg_iff)
  with assms(4) pos have "0 < maxWeightG div unitWeight"
    by (auto simp: floor_quotient_def)
  with assms(3,5) pos show ?thesis by (auto simp: floor_quotient_def)
qed

lemma weight_single:
  "getProduct s pid = Some product \<Longrightarrow> calculateShipmentWeight s [Item pid n] = massG product * n"
  by (simp add: calculateShipmentWeight_def)

lemma packItem_weights_nonneg_mass:
  assumes "packItem s maxWeightG pid unitWeight remainingQuantity shipments = Some result"
    and "0 < maxWeightG" and "0 \<le> unitWeight"
    and "getProduct s pid = Some product" and "massG product = unitWeight"
    and "\<forall>shipment\<in>set shipments. calculateShipmentWeight s shipment \<le> maxWeightG"
  shows "\<forall>shipment\<in>set result. calculateShipmentWeight s shipment \<le> maxWeightG"
  using assms(2-)
proof (induction rule: packItem.raw_induct [OF _ assms(1)])
  case (1 loop s maxWeightG pid unitWeight remainingQuantity shipments result)
  note IH = "1.IH" and body = "1.hyps"
  have W: "0 < maxWeightG" and uw: "0 \<le> unitWeight"
    and prod: "getProduct s pid = Some product" and mass: "massG product = unitWeight"
    and inv: "\<forall>shipment\<in>set shipments. calculateShipmentWeight s shipment \<le> maxWeightG"
    using "1.prems" by simp_all
  show ?case
  proof (cases "0 < remainingQuantity \<and> floor_quotient maxWeightG unitWeight \<noteq> Finite 0")
    case False
    with body inv show ?thesis by (auto split: if_splits)
  next
    case True
    show ?thesis
    proof (cases "addToExisting s maxWeightG pid unitWeight remainingQuantity shipments")
      case (Some added)
      obtain shipments' n where added: "added = (shipments', n)" by (cases added)
      from Some added True body
      have rec: "loop s maxWeightG pid unitWeight (remainingQuantity - n) shipments' = Some result"
        by simp
      from addToExisting_Some [OF Some [unfolded added]] obtain before shipment after where
        split: "shipments = before @ shipment # after"
          "shipments' = before @ addItem shipment (Item pid n) # after"
        and n: "units_min (floor_quotient (maxWeightG - calculateShipmentWeight s shipment) unitWeight)
                  remainingQuantity = Some n"
        by blast
      from units_fit [OF uw n]
      have "calculateShipmentWeight s (addItem shipment (Item pid n)) \<le> maxWeightG"
        using prod mass by (simp add: weight_addItem)
      with split inv
      have "\<forall>shipment\<in>set shipments'. calculateShipmentWeight s shipment \<le> maxWeightG"
        by auto
      from IH [OF rec W uw prod mass this] show ?thesis .
    next
      case None
      with True body obtain n where
        n: "units_min (floor_quotient maxWeightG unitWeight) remainingQuantity = Some n"
        and rec: "loop s maxWeightG pid unitWeight (remainingQuantity - n)
                    (shipments @ [[Item pid n]]) = Some result"
        by (auto split: option.splits)
      from units_fit [OF uw n] prod mass
      have "calculateShipmentWeight s [Item pid n] \<le> maxWeightG"
        by (simp add: weight_single)
      with inv
      have "\<forall>shipment\<in>set (shipments @ [[Item pid n]]). calculateShipmentWeight s shipment \<le> maxWeightG"
        by auto
      from IH [OF rec W uw prod mass this] show ?thesis .
    qed
  qed
qed



lemma div_negative_divisor_nonpos:
  fixes a b :: int
  assumes "b < 0" and "b < a"
  shows "a div b \<le> 0"
proof (cases "0 < a")
  case True
  with assms(1) have "a div b < 0" by (simp add: neg_imp_zdiv_neg_iff)
  then show ?thesis by simp
next
  case False
  with assms have "a div b = 0" by (simp add: div_neg_neg_trivial)
  then show ?thesis by simp
qed

lemma packItem_negative_mass_diverges:
  assumes "packItem s maxWeightG pid unitWeight remainingQuantity shipments = Some result"
    and "0 < maxWeightG" and "unitWeight < 0" and "0 < remainingQuantity"
    and "getProduct s pid = Some product" and "massG product = unitWeight"
    and "\<forall>shipment\<in>set shipments. calculateShipmentWeight s shipment < maxWeightG - unitWeight"
  shows False
  using assms(2-)
proof (induction rule: packItem.raw_induct [OF _ assms(1)])
  case (1 loop s maxWeightG pid unitWeight remainingQuantity shipments result)
  note IH = "1.IH" and body = "1.hyps"
  have W: "0 < maxWeightG" and uw: "unitWeight < 0" and rem: "0 < remainingQuantity"
    and prod: "getProduct s pid = Some product" and mass: "massG product = unitWeight"
    and inv: "\<forall>shipment\<in>set shipments. calculateShipmentWeight s shipment < maxWeightG - unitWeight"
    using "1.prems" by simp_all
  from W uw have q: "maxWeightG div unitWeight < 0"
    by (simp add: neg_imp_zdiv_neg_iff)
  with uw have fq: "floor_quotient maxWeightG unitWeight = Finite (maxWeightG div unitWeight)"
    by (simp add: floor_quotient_def)
  have none: "addToExisting s maxWeightG pid unitWeight remainingQuantity shipments = None"
  proof (rule ccontr)
    assume "addToExisting s maxWeightG pid unitWeight remainingQuantity shipments \<noteq> None"
    then obtain shipments' n where
      "addToExisting s maxWeightG pid unitWeight remainingQuantity shipments = Some (shipments', n)"
      by auto
    from addToExisting_Some [OF this] obtain before shipment after where
      split: "shipments = before @ shipment # after" and n: "0 < n"
      "units_min (floor_quotient (maxWeightG - calculateShipmentWeight s shipment) unitWeight)
         remainingQuantity = Some n"
      by blast
    from split have mem: "shipment \<in> set shipments" by simp
    from mem inv have "unitWeight < maxWeightG - calculateShipmentWeight s shipment" by auto
    with uw have "(maxWeightG - calculateShipmentWeight s shipment) div unitWeight \<le> 0"
      by (rule div_negative_divisor_nonpos)
    with n uw show False by (auto simp: floor_quotient_def)
  qed
  from q rem have "min (maxWeightG div unitWeight) remainingQuantity = maxWeightG div unitWeight"
    by simp
  with body rem q fq none
  have rec: "loop s maxWeightG pid unitWeight (remainingQuantity - maxWeightG div unitWeight)
               (shipments @ [[Item pid (maxWeightG div unitWeight)]]) = Some result"
    by simp
  have "unitWeight * (maxWeightG div unitWeight) = maxWeightG - maxWeightG mod unitWeight"
    using mult_div_mod_eq [of unitWeight maxWeightG] by linarith
  moreover from uw have "unitWeight < maxWeightG mod unitWeight"
    by (rule neg_mod_bound)
  ultimately have "calculateShipmentWeight s [Item pid (maxWeightG div unitWeight)] < maxWeightG - unitWeight"
    using prod mass by (simp add: weight_single)
  with inv have inv': "\<forall>shipment\<in>set (shipments @ [[Item pid (maxWeightG div unitWeight)]]).
      calculateShipmentWeight s shipment < maxWeightG - unitWeight"
    by auto
  from q rem have rem': "0 < remainingQuantity - maxWeightG div unitWeight" by simp
  from IH [OF rec W uw rem' prod mass inv'] show ?case .
qed




lemma packItem_positive_lines:
  assumes "packItem s maxWeightG pid unitWeight remainingQuantity shipments = Some result"
    and "0 < maxWeightG" and "0 \<le> unitWeight"
    and "\<forall>shipment\<in>set shipments. \<forall>line\<in>set shipment. 0 < quantity line"
  shows "\<forall>shipment\<in>set result. \<forall>line\<in>set shipment. 0 < quantity line"
  using assms(2-)
proof (induction rule: packItem.raw_induct [OF _ assms(1)])
  case (1 loop s maxWeightG pid unitWeight remainingQuantity shipments result)
  note IH = "1.IH" and body = "1.hyps"
  have W: "0 < maxWeightG" and uw: "0 \<le> unitWeight"
    and inv: "\<forall>shipment\<in>set shipments. \<forall>line\<in>set shipment. 0 < quantity line"
    using "1.prems" by simp_all
  show ?case
  proof (cases "0 < remainingQuantity \<and> floor_quotient maxWeightG unitWeight \<noteq> Finite 0")
    case False
    with body inv show ?thesis by (auto split: if_splits)
  next
    case True
    show ?thesis
    proof (cases "addToExisting s maxWeightG pid unitWeight remainingQuantity shipments")
      case (Some added)
      obtain shipments' n where added: "added = (shipments', n)" by (cases added)
      from Some added True body
      have rec: "loop s maxWeightG pid unitWeight (remainingQuantity - n) shipments' = Some result"
        by simp
      from addToExisting_Some [OF Some [unfolded added]] obtain before shipment after where
        split: "shipments = before @ shipment # after"
          "shipments' = before @ addItem shipment (Item pid n) # after"
        and n: "0 < n"
        by blast
      from split(1) inv have "\<forall>line\<in>set shipment. 0 < quantity line" by auto
      with n have "\<forall>line\<in>set (addItem shipment (Item pid n)). 0 < quantity line"
        by (intro addItem_positive) simp_all
      with split inv
      have "\<forall>shipment\<in>set shipments'. \<forall>line\<in>set shipment. 0 < quantity line"
        by auto
      from IH [OF rec W uw this] show ?thesis .
    next
      case None
      with True body obtain n where
        n: "units_min (floor_quotient maxWeightG unitWeight) remainingQuantity = Some n"
        and rec: "loop s maxWeightG pid unitWeight (remainingQuantity - n)
                    (shipments @ [[Item pid n]]) = Some result"
        by (auto split: option.splits)
      from True have "0 < remainingQuantity"
        and "floor_quotient maxWeightG unitWeight \<noteq> Finite 0" by simp_all
      from new_units_positive [OF uw W this n] have "0 < n" .
      with inv
      have "\<forall>shipment\<in>set (shipments @ [[Item pid n]]). \<forall>line\<in>set shipment. 0 < quantity line"
        by auto
      from IH [OF rec W uw this] show ?thesis .
    qed
  qed
qed

lemma packItem_not_positive:
  "\<not> 0 < remainingQuantity \<Longrightarrow>
     packItem s maxWeightG pid unitWeight remainingQuantity shipments = Some shipments"
  by (subst packItem.simps) simp

lemma packItem_weights:
  assumes "packItem s maxWeightG pid unitWeight remainingQuantity shipments = Some result"
    and "0 < maxWeightG"
    and "getProduct s pid = Some product" and "massG product = unitWeight"
    and "\<forall>shipment\<in>set shipments. calculateShipmentWeight s shipment \<le> maxWeightG"
  shows "0 \<le> unitWeight \<or> \<not> 0 < remainingQuantity"
    and "\<forall>shipment\<in>set result. calculateShipmentWeight s shipment \<le> maxWeightG"
proof -
  show sign: "0 \<le> unitWeight \<or> \<not> 0 < remainingQuantity"
  proof (rule ccontr)
    assume "\<not> (0 \<le> unitWeight \<or> \<not> 0 < remainingQuantity)"
    then have neg: "unitWeight < 0" and rem: "0 < remainingQuantity" by simp_all
    from neg assms(5)
    have "\<forall>shipment\<in>set shipments. calculateShipmentWeight s shipment < maxWeightG - unitWeight"
      by auto
    from packItem_negative_mass_diverges [OF assms(1,2) neg rem assms(3,4) this]
    show False .
  qed
  show "\<forall>shipment\<in>set result. calculateShipmentWeight s shipment \<le> maxWeightG"
  proof (cases "0 \<le> unitWeight")
    case True
    from packItem_weights_nonneg_mass [OF assms(1,2) True assms(3,4,5)] show ?thesis .
  next
    case False
    with sign have "\<not> 0 < remainingQuantity" by simp
    from packItem_not_positive [OF this] assms(1,5) show ?thesis by simp
  qed
qed

lemma itemsWithWeight_member:
  assumes "(it, unitWeight) \<in> set (itemsWithWeight s items)"
  shows "it \<in> set items" and "0 < quantity it"
    and "\<exists>product. getProduct s (productId it) = Some product \<and> massG product = unitWeight"
  using assms by (auto simp: itemsWithWeight_def)

lemma known_entries_Cons:
  "known_entries s ((it, unitWeight) # rest) =
     ((\<exists>product. getProduct s (productId it) = Some product \<and> massG product = unitWeight)
      \<and> known_entries s rest)"
  by (simp add: known_entries_def)

lemma known_entries_itemsWithWeight: "known_entries s (itemsWithWeight s items)"
  unfolding known_entries_def using itemsWithWeight_member(3) by fastforce

lemma packItems_weights:
  "packItems s maxWeightG entries shipments = Some result \<Longrightarrow> 0 < maxWeightG \<Longrightarrow>
     known_entries s entries \<Longrightarrow>
     \<forall>shipment\<in>set shipments. calculateShipmentWeight s shipment \<le> maxWeightG \<Longrightarrow>
     \<forall>shipment\<in>set result. calculateShipmentWeight s shipment \<le> maxWeightG"
proof (induction entries arbitrary: shipments)
  case Nil
  then show ?case by simp
next
  case (Cons entry rest)
  obtain it unitWeight where entry: "entry = (it, unitWeight)" by (cases entry)
  from Cons.prems(1) entry obtain shipments' where
    one: "packItem s maxWeightG (productId it) unitWeight (quantity it) shipments = Some shipments'"
    and more: "packItems s maxWeightG rest shipments' = Some result"
    by (auto split: option.splits)
  from Cons.prems(3) entry obtain product where
    prod: "getProduct s (productId it) = Some product" "massG product = unitWeight"
    and rest: "known_entries s rest"
    by (auto simp: known_entries_Cons)
  from packItem_weights(2) [OF one Cons.prems(2) prod Cons.prems(4)]
  have "\<forall>shipment\<in>set shipments'. calculateShipmentWeight s shipment \<le> maxWeightG" .
  from Cons.IH [OF more Cons.prems(2) rest this] show ?case .
qed

lemma productId_addItem:
  "productId ` set (addItem items it) = insert (productId it) (productId ` set items)"
  by (induction items) auto

lemma packItem_product_ids:
  assumes "packItem s maxWeightG pid unitWeight remainingQuantity shipments = Some result"
    and "pid \<in> known"
    and "\<forall>shipment\<in>set shipments. productId ` set shipment \<subseteq> known"
  shows "\<forall>shipment\<in>set result. productId ` set shipment \<subseteq> known"
  using assms(2-)
proof (induction rule: packItem.raw_induct [OF _ assms(1)])
  case (1 loop s maxWeightG pid unitWeight remainingQuantity shipments result)
  note IH = "1.IH" and body = "1.hyps"
  have pid: "pid \<in> known"
    and inv: "\<forall>shipment\<in>set shipments. productId ` set shipment \<subseteq> known"
    using "1.prems" by simp_all
  show ?case
  proof (cases "0 < remainingQuantity \<and> floor_quotient maxWeightG unitWeight \<noteq> Finite 0")
    case False
    with body inv show ?thesis by (auto split: if_splits)
  next
    case True
    show ?thesis
    proof (cases "addToExisting s maxWeightG pid unitWeight remainingQuantity shipments")
      case (Some added)
      obtain shipments' n where added: "added = (shipments', n)" by (cases added)
      from Some added True body
      have rec: "loop s maxWeightG pid unitWeight (remainingQuantity - n) shipments' = Some result"
        by simp
      from addToExisting_Some [OF Some [unfolded added]] obtain before shipment after where
        split: "shipments = before @ shipment # after"
          "shipments' = before @ addItem shipment (Item pid n) # after"
        by blast
      from split(1) inv have "productId ` set shipment \<subseteq> known" by auto
      with pid have "productId ` set (addItem shipment (Item pid n)) \<subseteq> known"
        by (simp add: productId_addItem)
      with split inv
      have "\<forall>shipment\<in>set shipments'. productId ` set shipment \<subseteq> known"
        by auto
      from IH [OF rec pid this] show ?thesis .
    next
      case None
      with True body obtain n where
        rec: "loop s maxWeightG pid unitWeight (remainingQuantity - n)
                    (shipments @ [[Item pid n]]) = Some result"
        by (auto split: option.splits)
      from inv pid
      have "\<forall>shipment\<in>set (shipments @ [[Item pid n]]). productId ` set shipment \<subseteq> known"
        by auto
      from IH [OF rec pid this] show ?thesis .
    qed
  qed
qed

lemma packItems_product_ids:
  "packItems s maxWeightG entries shipments = Some result \<Longrightarrow>
     \<forall>(it, unitWeight)\<in>set entries. productId it \<in> known \<Longrightarrow>
     \<forall>shipment\<in>set shipments. productId ` set shipment \<subseteq> known \<Longrightarrow>
     \<forall>shipment\<in>set result. productId ` set shipment \<subseteq> known"
proof (induction entries arbitrary: shipments)
  case Nil
  then show ?case by simp
next
  case (Cons entry rest)
  obtain it unitWeight where entry: "entry = (it, unitWeight)" by (cases entry)
  from Cons.prems(1) entry obtain shipments' where
    one: "packItem s maxWeightG (productId it) unitWeight (quantity it) shipments = Some shipments'"
    and more: "packItems s maxWeightG rest shipments' = Some result"
    by (auto split: option.splits)
  from Cons.prems(2) entry have pid: "productId it \<in> known"
    and rest: "\<forall>(it, unitWeight)\<in>set rest. productId it \<in> known" by auto
  from packItem_product_ids [OF one pid Cons.prems(3)]
  have "\<forall>shipment\<in>set shipments'. productId ` set shipment \<subseteq> known" .
  from Cons.IH [OF more rest this] show ?case .
qed

text \<open>
  C5: for every state, every list of items and every positive ceiling, each package that
  \<open>packShipment\<close> returns weighs at most the ceiling; every line of the package names a product
  of the catalog, and the weight is the sum over the lines of that product's unit mass times
  the line's quantity.
\<close>

theorem packShipment_within_ceiling:
  assumes "0 < maxWeightG" and "packShipment s items maxWeightG = Some shipments"
    and "shipment \<in> set shipments"
  shows "calculateShipmentWeight s shipment \<le> maxWeightG
         \<and> (\<forall>line\<in>set shipment. \<exists>product. getProduct s (productId line) = Some product)
         \<and> calculateShipmentWeight s shipment
              = (\<Sum>line\<leftarrow>shipment. massG (the (getProduct s (productId line))) * quantity line)"
proof -
  from assms(2) have run: "packItems s maxWeightG (itemsWithWeight s items) [] = Some shipments"
    by (simp add: packShipment_def)
  from packItems_weights [OF run assms(1) known_entries_itemsWithWeight] assms(3)
  have weight: "calculateShipmentWeight s shipment \<le> maxWeightG" by simp
  have "\<forall>(it, unitWeight)\<in>set (itemsWithWeight s items). productId it \<in> dom (getProduct s)"
    using itemsWithWeight_member(3) by fastforce
  from packItems_product_ids [OF run this] assms(3)
  have known: "productId ` set shipment \<subseteq> dom (getProduct s)" by simp
  then have lines: "\<forall>line\<in>set shipment. \<exists>product. getProduct s (productId line) = Some product"
    by auto
  then have "map (line_mass s) shipment
       = map (\<lambda>line. massG (the (getProduct s (productId line))) * quantity line) shipment"
    by (auto simp: line_mass_def)
  then have "calculateShipmentWeight s shipment
       = (\<Sum>line\<leftarrow>shipment. massG (the (getProduct s (productId line))) * quantity line)"
    unfolding calculateShipmentWeight_sum by (rule arg_cong)
  with weight lines show ?thesis by simp
qed

theorem packShipment_within_ceiling_witness:
  "(0::int) < 1800
   \<and> packShipment stocked_system [Item 0 5, Item 1 1] 1800
       = Some [[Item 1 1, Item 0 1], [Item 0 2], [Item 0 2]]
   \<and> calculateShipmentWeight stocked_system [Item 1 1, Item 0 1] \<le> 1800
   \<and> calculateShipmentWeight stocked_system [Item 1 1, Item 0 1] = 1700"
proof -
  have run: "packShipment stocked_system [Item 0 5, Item 1 1] 1800
       = Some [[Item 1 1, Item 0 1], [Item 0 2], [Item 0 2]]"
    by code_simp
  have mem: "[Item 1 1, Item 0 1] \<in> set [[Item 1 1, Item 0 1], [Item 0 2], [Item 0 2]]"
    by simp
  have w: "calculateShipmentWeight stocked_system [Item 1 1, Item 0 1] = 1700"
    by code_simp
  from packShipment_within_ceiling [OF _ run mem] run w show ?thesis by simp
qed

lemma total_quantity_Nil [simp]: "total_quantity [] = 0"
  by (simp add: total_quantity_def)

lemma total_quantity_Cons [simp]: "total_quantity (it # items) = quantity it + total_quantity items"
  by (simp add: total_quantity_def)

lemma total_quantity_append [simp]:
  "total_quantity (xs @ ys) = total_quantity xs + total_quantity ys"
  by (simp add: total_quantity_def)

lemma packItem_terminates:
  assumes "0 < maxWeightG" and "0 \<le> unitWeight" and "unitWeight \<le> maxWeightG"
    and "0 \<le> remainingQuantity"
  shows "\<exists>result. packItem s maxWeightG pid unitWeight remainingQuantity shipments = Some result
           \<and> total_quantity (concat result) = total_quantity (concat shipments) + remainingQuantity"
  using assms(4)
proof (induction "nat remainingQuantity" arbitrary: remainingQuantity shipments rule: less_induct)
  case less
  show ?case
  proof (cases "0 < remainingQuantity")
    case False
    with less.prems have "remainingQuantity = 0" by simp
    then show ?thesis by (simp add: packItem_not_positive)
  next
    case True
    have room: "floor_quotient maxWeightG unitWeight \<noteq> Finite 0"
    proof (cases "unitWeight = 0")
      case True
      with assms(1) show ?thesis by (simp add: floor_quotient_def)
    next
      case False
      with assms(2) have "0 < unitWeight" by simp
      with assms(3) have "0 < maxWeightG div unitWeight"
        by (simp add: pos_imp_zdiv_pos_iff)
      with False show ?thesis by (simp add: floor_quotient_def)
    qed
    show ?thesis
    proof (cases "addToExisting s maxWeightG pid unitWeight remainingQuantity shipments")
      case (Some added)
      obtain shipments' n where added: "added = (shipments', n)" by (cases added)
      from addToExisting_Some [OF Some [unfolded added]] obtain before shipment after where
        split: "shipments = before @ shipment # after"
          "shipments' = before @ addItem shipment (Item pid n) # after"
        and pos: "0 < n"
        and n: "units_min (floor_quotient (maxWeightG - calculateShipmentWeight s shipment) unitWeight)
                  remainingQuantity = Some n"
        by blast
      from units_min_le [OF n] pos
      have smaller: "nat (remainingQuantity - n) < nat remainingQuantity"
        and rem': "0 \<le> remainingQuantity - n" by simp_all
      from less.hyps [OF smaller rem', of shipments'] obtain result where
        res: "packItem s maxWeightG pid unitWeight (remainingQuantity - n) shipments' = Some result"
          "total_quantity (concat result) = total_quantity (concat shipments') + (remainingQuantity - n)"
        by blast
      from split have "total_quantity (concat shipments') = total_quantity (concat shipments) + n"
        by (simp add: total_quantity_addItem)
      with res(2)
      have "total_quantity (concat result) = total_quantity (concat shipments) + remainingQuantity"
        by simp
      moreover from True room Some added res(1)
      have "packItem s maxWeightG pid unitWeight remainingQuantity shipments = Some result"
        by (subst packItem.simps) simp
      ultimately show ?thesis by blast
    next
      case None
      obtain n where n: "units_min (floor_quotient maxWeightG unitWeight) remainingQuantity = Some n"
        using assms(1,2) by (cases "unitWeight = 0") (auto simp: floor_quotient_def)
      from new_units_positive [OF assms(2,1) True room n] have pos: "0 < n" .
      from units_min_le [OF n] pos
      have smaller: "nat (remainingQuantity - n) < nat remainingQuantity"
        and rem': "0 \<le> remainingQuantity - n" by simp_all
      from less.hyps [OF smaller rem', of "shipments @ [[Item pid n]]"] obtain result where
        res: "packItem s maxWeightG pid unitWeight (remainingQuantity - n)
                (shipments @ [[Item pid n]]) = Some result"
          "total_quantity (concat result)
             = total_quantity (concat (shipments @ [[Item pid n]])) + (remainingQuantity - n)"
        by blast
      from res(2)
      have "total_quantity (concat result) = total_quantity (concat shipments) + remainingQuantity"
        by simp
      moreover from True room None n res(1)
      have "packItem s maxWeightG pid unitWeight remainingQuantity shipments = Some result"
        by (subst packItem.simps) simp
      ultimately show ?thesis by blast
    qed
  qed
qed

lemma packItems_terminates:
  assumes "0 < maxWeightG"
  shows "\<forall>(it, unitWeight)\<in>set entries. 0 \<le> unitWeight \<and> unitWeight \<le> maxWeightG \<and> 0 \<le> quantity it \<Longrightarrow>
     \<exists>result. packItems s maxWeightG entries shipments = Some result
        \<and> total_quantity (concat result)
            = total_quantity (concat shipments) + total_quantity (map fst entries)"
proof (induction entries arbitrary: shipments)
  case Nil
  then show ?case by simp
next
  case (Cons entry rest)
  obtain it unitWeight where entry: "entry = (it, unitWeight)" by (cases entry)
  with Cons.prems have "0 \<le> unitWeight" "unitWeight \<le> maxWeightG" "0 \<le> quantity it"
    and rest: "\<forall>(it, unitWeight)\<in>set rest. 0 \<le> unitWeight \<and> unitWeight \<le> maxWeightG \<and> 0 \<le> quantity it"
    by auto
  from packItem_terminates [OF assms this(1,2,3), of s "productId it" shipments]
  obtain shipments' where
    one: "packItem s maxWeightG (productId it) unitWeight (quantity it) shipments = Some shipments'"
      "total_quantity (concat shipments') = total_quantity (concat shipments) + quantity it"
    by blast
  from Cons.IH [OF rest, of shipments'] obtain result where
    "packItems s maxWeightG rest shipments' = Some result"
    "total_quantity (concat result)
       = total_quantity (concat shipments') + total_quantity (map fst rest)"
    by blast
  with one entry show ?case by simp
qed

lemma sum_list_insort_key:
  fixes g :: "'a \<Rightarrow> int"
  shows "sum_list (map g (insort_key f x xs)) = g x + sum_list (map g xs)"
  by (induction xs) auto

lemma sum_list_sort_key:
  fixes g :: "'a \<Rightarrow> int"
  shows "sum_list (map g (sort_key f xs)) = sum_list (map g xs)"
  by (induction xs) (simp_all add: sum_list_insort_key)

text \<open>
  C6 does not hold for every catalog: \<^verbatim>\<open>initCatalog\<close> accepts a negative unit mass, which is
  below every positive ceiling, and for one unit of such a product the loop of \<open>packShipment\<close>
  never returns (each new package takes -1800 units and leaves more to pack than before).
\<close>

theorem packShipment_negative_mass_never_returns:
  "fst (initCatalog [\<lparr>product_id = 0, product_name = ''RBC A+ Adult'', mass_g = - 1\<rparr>]
          initial_system) = None
   \<and> map_option massG (getProduct negative_mass_system 0) = Some (- 1)
   \<and> quantity (Item 0 1) = 1
   \<and> packShipment negative_mass_system [Item 0 1] 1800 = None"
proof -
  have prod: "getProduct negative_mass_system 0
      = Some \<lparr>p_productId = 0, productName = ''RBC A+ Adult'', massG = - 1, quantityInStock = 0\<rparr>"
    by (simp add: getProduct_def negative_mass_system_def initCatalog_def initial_system_def Let_def)
  have loop: "packItem negative_mass_system 1800 0 (- 1) 1 [] = None"
  proof (rule ccontr)
    assume "packItem negative_mass_system 1800 0 (- 1) 1 [] \<noteq> None"
    then obtain result where "packItem negative_mass_system 1800 0 (- 1) 1 [] = Some result"
      by auto
    from packItem_negative_mass_diverges [OF this _ _ _ prod] show False by simp
  qed
  have "itemsWithWeight negative_mass_system [Item 0 1] = [(Item 0 1, - 1)]"
    by (simp add: itemsWithWeight_def prod)
  with loop have "packShipment negative_mass_system [Item 0 1] 1800 = None"
    by (simp add: packShipment_def)
  with prod show ?thesis by (simp add: initCatalog_def initial_system_def Let_def)
qed

text \<open>
  C6, for unit masses that are not negative: under a positive ceiling, when every item of the
  list has a positive quantity and names a product of the catalog whose unit mass is at least 0
  and at most the ceiling, \<open>packShipment\<close> returns, and the quantities of all lines of all
  packages add up to the quantities of the input.
\<close>

theorem packShipment_packs_every_unit:
  assumes "0 < maxWeightG"
    and "\<forall>it\<in>set items. 0 < quantity it
              \<and> (\<exists>product. getProduct s (productId it) = Some product
                    \<and> 0 \<le> massG product \<and> massG product \<le> maxWeightG)"
  shows "\<exists>shipments. packShipment s items maxWeightG = Some shipments
           \<and> total_quantity (concat shipments) = total_quantity items"
proof -
  have kept: "filter (\<lambda>(it, unitWeight). getProduct s (productId it) \<noteq> None \<and> quantity it > 0)
          (map (\<lambda>it. (it, case getProduct s (productId it) of
                             Some product \<Rightarrow> massG product
                           | None \<Rightarrow> 0)) items)
        = map (\<lambda>it. (it, case getProduct s (productId it) of
                             Some product \<Rightarrow> massG product
                           | None \<Rightarrow> 0)) items"
    using assms(2) by (intro filter_True) fastforce
  have "\<forall>(it, unitWeight)\<in>set (itemsWithWeight s items).
           0 \<le> unitWeight \<and> unitWeight \<le> maxWeightG \<and> 0 \<le> quantity it"
  proof (intro ballI, clarify)
    fix it unitWeight
    assume mem: "(it, unitWeight) \<in> set (itemsWithWeight s items)"
    from itemsWithWeight_member [OF mem] assms(2)
    show "0 \<le> unitWeight \<and> unitWeight \<le> maxWeightG \<and> 0 \<le> quantity it"
      by fastforce
  qed
  from packItems_terminates [OF assms(1) this, of s "[]"] obtain shipments where
    run: "packItems s maxWeightG (itemsWithWeight s items) [] = Some shipments"
    and total: "total_quantity (concat shipments) = total_quantity (map fst (itemsWithWeight s items))"
    by auto
  have "total_quantity (map fst (itemsWithWeight s items)) = total_quantity items"
    unfolding itemsWithWeight_def kept total_quantity_def
    by (simp add: sum_list_sort_key comp_def)
  with run total show ?thesis by (simp add: packShipment_def)
qed

theorem packShipment_packs_every_unit_witness:
  "(\<exists>shipments. packShipment stocked_system [Item 0 5, Item 1 1] 1800 = Some shipments
        \<and> total_quantity (concat shipments) = total_quantity [Item 0 5, Item 1 1])
   \<and> packShipment stocked_system [Item 0 5, Item 1 1] 1800
       = Some [[Item 1 1, Item 0 1], [Item 0 2], [Item 0 2]]
   \<and> total_quantity [Item 0 5, Item 1 1] = 6"
proof -
  have hyp: "\<forall>it\<in>set [Item 0 5, Item 1 1]. 0 < quantity it
        \<and> (\<exists>product. getProduct stocked_system (productId it) = Some product
              \<and> 0 \<le> massG product \<and> massG product \<le> 1800)"
    by (simp add: getProduct_def stocked_system_def inventory_processRestock_def
          initialised_system_def initCatalog_def initial_system_def saveProducts_def Let_def)
  have run: "packShipment stocked_system [Item 0 5, Item 1 1] 1800
       = Some [[Item 1 1, Item 0 1], [Item 0 2], [Item 0 2]]"
    by code_simp
  from packShipment_packs_every_unit [OF _ hyp] run show ?thesis by simp
qed

section \<open>Properties: shipped quantities against requested quantities\<close>

lemma qty_of_append [simp]: "qty_of p (xs @ ys) = qty_of p xs + qty_of p ys"
  by (simp add: qty_of_def)

lemma qty_of_Nil [simp]: "qty_of p [] = 0"
  by (simp add: qty_of_def)

lemma qty_of_Cons [simp]:
  "qty_of p (it # items) = (if productId it = p then quantity it else 0) + qty_of p items"
  by (simp add: qty_of_def)

lemma packItem_quantities:
  assumes "packItem s maxWeightG pid unitWeight remainingQuantity shipments = Some result"
    and "0 \<le> remainingQuantity"
  shows "qty_of p (concat result)
           \<le> qty_of p (concat shipments) + (if p = pid then remainingQuantity else 0)"
  using assms(2-)
proof (induction rule: packItem.raw_induct [OF _ assms(1)])
  case (1 loop s maxWeightG pid unitWeight remainingQuantity shipments result)
  note IH = "1.IH" and body = "1.hyps"
  have rem: "0 \<le> remainingQuantity" using "1.prems" by simp
  show ?case
  proof (cases "0 < remainingQuantity \<and> floor_quotient maxWeightG unitWeight \<noteq> Finite 0")
    case False
    with body rem show ?thesis by (auto split: if_splits)
  next
    case True
    show ?thesis
    proof (cases "addToExisting s maxWeightG pid unitWeight remainingQuantity shipments")
      case (Some added)
      obtain shipments' n where added: "added = (shipments', n)" by (cases added)
      from Some added True body
      have rec: "loop s maxWeightG pid unitWeight (remainingQuantity - n) shipments' = Some result"
        by simp
      from addToExisting_Some [OF Some [unfolded added]] obtain before shipment after where
        split: "shipments = before @ shipment # after"
          "shipments' = before @ addItem shipment (Item pid n) # after"
        and n: "units_min (floor_quotient (maxWeightG - calculateShipmentWeight s shipment) unitWeight)
                  remainingQuantity = Some n"
        by blast
      from units_min_le [OF n] have rem': "0 \<le> remainingQuantity - n" by simp
      from split have "qty_of p (concat shipments')
           = qty_of p (concat shipments) + (if p = pid then n else 0)"
        by (simp add: qty_of_addItem)
      with IH [OF rec rem'] show ?thesis by (simp split: if_splits)
    next
      case None
      with True body obtain n where
        n: "units_min (floor_quotient maxWeightG unitWeight) remainingQuantity = Some n"
        and rec: "loop s maxWeightG pid unitWeight (remainingQuantity - n)
                    (shipments @ [[Item pid n]]) = Some result"
        by (auto split: option.splits)
      from units_min_le [OF n] have rem': "0 \<le> remainingQuantity - n" by simp
      have "qty_of p (concat (shipments @ [[Item pid n]]))
           = qty_of p (concat shipments) + (if p = pid then n else 0)"
        by simp
      with IH [OF rec rem'] show ?thesis by (simp split: if_splits)
    qed
  qed
qed

lemma qty_of_foldl_addItem:
  "qty_of p (foldl addItem items new) = qty_of p items + qty_of p new"
  by (induction new arbitrary: items) (auto simp: qty_of_addItem)

lemma distinct_addItem:
  "distinct (map productId items) \<Longrightarrow> distinct (map productId (addItem items it))"
  by (induction items) (auto simp: productId_addItem)

lemma distinct_foldl_addItem:
  "distinct (map productId items) \<Longrightarrow> distinct (map productId (foldl addItem items new))"
  by (induction new arbitrary: items) (auto simp: distinct_addItem)

lemma qty_of_absent: "p \<notin> productId ` set items \<Longrightarrow> qty_of p items = 0"
  by (induction items) auto

lemma find_qty_of:
  "distinct (map productId items) \<Longrightarrow>
     (case find (\<lambda>it. productId it = p) items of Some line \<Rightarrow> quantity line | None \<Rightarrow> 0)
       = qty_of p items"
  by (induction items) (auto simp: qty_of_absent)

lemma shippedQuantity_qty_of:
  "distinct (map productId (shippedItems order)) \<Longrightarrow>
     shippedQuantity order p = qty_of p (shippedItems order)"
  unfolding shippedQuantity_def by (rule find_qty_of)


lemma remaining_bounds:
  fixes shipped :: "int \<Rightarrow> int"
  assumes "\<forall>line\<in>set requested. 0 \<le> quantity line" and "0 \<le> shipped p"
  shows "qty_of p (concat (map (\<lambda>requestedItem.
            let remainingQuantity = quantity requestedItem - shipped (productId requestedItem)
            in if remainingQuantity > 0 then [Item (productId requestedItem) remainingQuantity] else [])
           requested)) \<le> qty_of p requested
       \<and> (qty_of p (concat (map (\<lambda>requestedItem.
            let remainingQuantity = quantity requestedItem - shipped (productId requestedItem)
            in if remainingQuantity > 0 then [Item (productId requestedItem) remainingQuantity] else [])
           requested)) = 0
          \<or> qty_of p (concat (map (\<lambda>requestedItem.
            let remainingQuantity = quantity requestedItem - shipped (productId requestedItem)
            in if remainingQuantity > 0 then [Item (productId requestedItem) remainingQuantity] else [])
           requested)) \<le> qty_of p requested - shipped p)"
  using assms(1)
proof (induction requested)
  case Nil
  then show ?case by simp
next
  case (Cons r rest)
  then show ?case using assms(2) by (auto simp: Let_def)
qed

lemma getRemainingItems_bound:
  assumes "order_ok order"
  shows "qty_of p (getRemainingItems order)
           \<le> qty_of p (requestedItems order) - qty_of p (shippedItems order)"
proof -
  from assms have d: "distinct (map productId (shippedItems order))"
    and nonneg: "\<forall>line\<in>set (requestedItems order). 0 \<le> quantity line"
    and s0: "0 \<le> qty_of p (shippedItems order)"
    and le: "qty_of p (shippedItems order) \<le> qty_of p (requestedItems order)"
    by (simp_all add: order_ok_def)
  from s0 d have "0 \<le> shippedQuantity order p" by (simp add: shippedQuantity_qty_of)
  from remaining_bounds [where shipped = "shippedQuantity order" and p = p, OF nonneg this] le d
  show ?thesis
    unfolding getRemainingItems_def by (auto simp: shippedQuantity_qty_of)
qed

lemma getRemainingItems_positive:
  "\<forall>line\<in>set (getRemainingItems order). 0 < quantity line"
  by (auto simp: getRemainingItems_def Let_def split: if_splits)

lemma getShippableItems_positive:
  "\<forall>line\<in>set (getShippableItems s items). 0 < quantity line"
  by (auto simp: getShippableItems_def Let_def split: if_splits)

lemma getShippableItems_bound:
  "\<forall>line\<in>set items. 0 \<le> quantity line \<Longrightarrow>
     qty_of p (getShippableItems s items) \<le> qty_of p items"
  unfolding getShippableItems_def
  by (induction items) (auto simp: Let_def)

lemma qty_of_filter_le:
  "\<forall>line\<in>set items. 0 \<le> quantity line \<Longrightarrow> qty_of p (filter P items) \<le> qty_of p items"
  by (induction items) auto

lemma qty_of_itemsWithWeight:
  assumes "\<forall>line\<in>set items. 0 \<le> quantity line"
  shows "qty_of p (map fst (itemsWithWeight s items)) \<le> qty_of p items"
proof -
  let ?weigh = "\<lambda>it. (it, case getProduct s (productId it) of
                             Some product \<Rightarrow> massG product | None \<Rightarrow> 0)"
  let ?keep = "\<lambda>(it, unitWeight). getProduct s (productId it) \<noteq> None \<and> quantity it > 0"
  have "qty_of p (map fst (itemsWithWeight s items))
          = qty_of p (map fst (filter ?keep (map ?weigh items)))"
    unfolding itemsWithWeight_def qty_of_def
    by (simp add: sum_list_sort_key comp_def)
  also have "map fst (filter ?keep (map ?weigh items))
          = filter (\<lambda>it. getProduct s (productId it) \<noteq> None \<and> quantity it > 0) items"
    by (induction items) auto
  also have "qty_of p \<dots> \<le> qty_of p items"
    using assms by (rule qty_of_filter_le)
  finally show ?thesis .
qed

lemma packItems_quantities:
  "packItems s maxWeightG entries shipments = Some result \<Longrightarrow>
     \<forall>(it, unitWeight)\<in>set entries. 0 \<le> quantity it \<Longrightarrow>
     qty_of p (concat result) \<le> qty_of p (concat shipments) + qty_of p (map fst entries)"
proof (induction entries arbitrary: shipments)
  case Nil
  then show ?case by simp
next
  case (Cons entry rest)
  obtain it unitWeight where entry: "entry = (it, unitWeight)" by (cases entry)
  from Cons.prems(1) entry obtain shipments' where
    one: "packItem s maxWeightG (productId it) unitWeight (quantity it) shipments = Some shipments'"
    and more: "packItems s maxWeightG rest shipments' = Some result"
    by (auto split: option.splits)
  from Cons.prems(2) entry have q: "0 \<le> quantity it"
    and rest: "\<forall>(it, unitWeight)\<in>set rest. 0 \<le> quantity it" by auto
  from packItem_quantities [OF one q, of p] Cons.IH [OF more rest] entry
  show ?case by (auto split: if_splits)
qed

lemma packItems_positive_lines:
  "packItems s maxWeightG entries shipments = Some result \<Longrightarrow> 0 < maxWeightG \<Longrightarrow>
     known_entries s entries \<Longrightarrow>
     \<forall>(it, unitWeight)\<in>set entries. 0 < quantity it \<Longrightarrow>
     \<forall>shipment\<in>set shipments. calculateShipmentWeight s shipment \<le> maxWeightG \<Longrightarrow>
     \<forall>shipment\<in>set shipments. \<forall>line\<in>set shipment. 0 < quantity line \<Longrightarrow>
     \<forall>shipment\<in>set result. \<forall>line\<in>set shipment. 0 < quantity line"
proof (induction entries arbitrary: shipments)
  case Nil
  then show ?case by simp
next
  case (Cons entry rest)
  obtain it unitWeight where entry: "entry = (it, unitWeight)" by (cases entry)
  from Cons.prems(1) entry obtain shipments' where
    one: "packItem s maxWeightG (productId it) unitWeight (quantity it) shipments = Some shipments'"
    and more: "packItems s maxWeightG rest shipments' = Some result"
    by (auto split: option.splits)
  from Cons.prems(3) entry obtain product where
    prod: "getProduct s (productId it) = Some product" "massG product = unitWeight"
    and known: "known_entries s rest"
    by (auto simp: known_entries_Cons)
  from Cons.prems(4) entry have q: "0 < quantity it"
    and rest: "\<forall>(it, unitWeight)\<in>set rest. 0 < quantity it" by auto
  from packItem_weights [OF one Cons.prems(2) prod Cons.prems(5)] q
  have uw: "0 \<le> unitWeight"
    and w': "\<forall>shipment\<in>set shipments'. calculateShipmentWeight s shipment \<le> maxWeightG"
    by simp_all
  from packItem_positive_lines [OF one Cons.prems(2) uw Cons.prems(6)]
  have "\<forall>shipment\<in>set shipments'. \<forall>line\<in>set shipment. 0 < quantity line" .
  from Cons.IH [OF more Cons.prems(2) known rest w' this] show ?case .
qed

lemma packShipment_bounds:
  assumes "packShipment s items maxWeightG = Some shipments" and "0 < maxWeightG"
    and "\<forall>line\<in>set items. 0 \<le> quantity line"
  shows "qty_of p (concat shipments) \<le> qty_of p items"
    and "\<forall>shipment\<in>set shipments. \<forall>line\<in>set shipment. 0 < quantity line"
proof -
  from assms(1) have run: "packItems s maxWeightG (itemsWithWeight s items) [] = Some shipments"
    by (simp add: packShipment_def)
  have pos: "\<forall>(it, unitWeight)\<in>set (itemsWithWeight s items). 0 < quantity it"
    using itemsWithWeight_member(2) by fastforce
  then have "\<forall>(it, unitWeight)\<in>set (itemsWithWeight s items). 0 \<le> quantity it"
    by fastforce
  from packItems_quantities [OF run this, of p] qty_of_itemsWithWeight [OF assms(3), of p s]
  show "qty_of p (concat shipments) \<le> qty_of p items" by simp
  from packItems_positive_lines [OF run assms(2) known_entries_itemsWithWeight pos]
  show "\<forall>shipment\<in>set shipments. \<forall>line\<in>set shipment. 0 < quantity line" by simp
qed

lemma qty_of_nonneg: "\<forall>line\<in>set items. 0 \<le> quantity line \<Longrightarrow> 0 \<le> qty_of p items"
  by (induction items) auto

lemma find_distinct_mem:
  "distinct (map orderId rows) \<Longrightarrow> order \<in> set rows \<Longrightarrow>
     find (\<lambda>row. orderId row = orderId order) rows = Some order"
  by (induction rows) (auto simp: rev_image_eqI)

lemma find_mem: "find P rows = Some order \<Longrightarrow> order \<in> set rows \<and> P order"
  by (induction rows) (auto split: if_splits)

lemma set_saveOrderRow: "set (saveOrderRow order rows) \<subseteq> insert order (set rows)"
  by (induction rows) auto

lemma map_orderId_saveOrderRow_new:
  "find (\<lambda>row. orderId row = orderId order) rows = None \<Longrightarrow>
     map orderId (saveOrderRow order rows) = map orderId rows @ [orderId order]"
  by (induction rows) (auto split: if_splits)

lemma ledger_ok_replace:
  assumes "ledger_ok s" and "findOrder s oid = Some order" and "orderId order' = oid"
    and "order_ok order'" and "orderRows s' = saveOrderRow order' (orderRows s)"
  shows "ledger_ok s'" and "findOrder s' oid = Some order'"
    and "\<forall>other. other \<noteq> oid \<longrightarrow> findOrder s' other = findOrder s other"
proof -
  from assms(2,3) have "map orderId (orderRows s') = map orderId (orderRows s)"
    unfolding assms(5) findOrder_def
    by (intro map_orderId_saveOrderRow [of _ _ order]) simp
  with assms(1,4,5) set_saveOrderRow [of order' "orderRows s"] show "ledger_ok s'"
    unfolding ledger_ok_def by auto
  from assms(3,5) show "findOrder s' oid = Some order'"
    by (simp add: findOrder_def find_saveOrderRow_same)
  from assms(3,5) show "\<forall>other. other \<noteq> oid \<longrightarrow> findOrder s' other = findOrder s other"
    by (simp add: findOrder_def find_saveOrderRow_other)
qed

lemma findOrder_ok: "ledger_ok s \<Longrightarrow> findOrder s oid = Some order \<Longrightarrow> order_ok order"
  unfolding ledger_ok_def findOrder_def by (auto dest: find_mem)

lemma shipped_within_refl:
  assumes "ledger_ok s" and "findOrder s oid = Some order"
    and "\<forall>line\<in>set lines. 0 \<le> quantity line" and "orderRows s' = orderRows s"
  shows "shipped_within oid lines s s'"
  using assms qty_of_nonneg [OF assms(3)]
  by (auto simp: shipped_within_def ledger_ok_def findOrder_def)

lemma updateOrderShipment_within:
  assumes "may_ship oid lines s" and "updateOrderShipment oid lines s = (e, s')"
  shows "shipped_within oid lines s s'"
proof -
  from assms(1) obtain order where ok: "ledger_ok s"
    and nonneg: "\<forall>line\<in>set lines. 0 \<le> quantity line"
    and found: "findOrder s oid = Some order"
    and bound: "\<forall>p. qty_of p (shippedItems order) + qty_of p lines \<le> qty_of p (requestedItems order)"
    by (auto simp: may_ship_def)
  let ?order1 = "order\<lparr>shippedItems := foldl addItem (shippedItems order) lines,
                         totalShipments := totalShipments order + 1\<rparr>"
  let ?order' = "?order1\<lparr>status := (if isOrderFulfilled ?order1 then FULFILLED else PARTIALLY_FULFILLED)\<rparr>"
  from assms(2) found have rows: "orderRows s' = saveOrderRow ?order' (orderRows s)"
    by (auto simp: updateOrderShipment_def Let_def)
  from findOrder_ok [OF ok found] have old: "order_ok order" .
  have new: "order_ok ?order'"
    unfolding order_ok_def
  proof (intro conjI allI)
    from old show "distinct (map productId (shippedItems ?order'))"
      by (simp add: order_ok_def distinct_foldl_addItem)
    from old show "\<forall>line\<in>set (requestedItems ?order'). 0 \<le> quantity line"
      by (simp add: order_ok_def)
    fix p
    from old qty_of_nonneg [OF nonneg, of p] show "0 \<le> qty_of p (shippedItems ?order')"
      by (simp add: order_ok_def qty_of_foldl_addItem)
    from bound show "qty_of p (shippedItems ?order') \<le> qty_of p (requestedItems ?order')"
      by (simp add: qty_of_foldl_addItem)
  qed
  from found have id: "orderId ?order' = oid" by (simp add: findOrder_orderId)
  from ledger_ok_replace [OF ok found id new rows] found show ?thesis
    unfolding shipped_within_def by (simp add: qty_of_foldl_addItem)
qed

lemma reserveStock_orderRows:
  "reserveStock items s = (e, s') \<Longrightarrow> orderRows s' = orderRows s"
proof -
  have loop: "\<And>s upd e s' upd'. reserve_loop items s upd = (e, s', upd') \<Longrightarrow> orderRows s' = orderRows s"
  proof (induction items)
    case Nil
    then show ?case by simp
  next
    case (Cons it rest)
    then show ?case by (fastforce split: option.splits if_splits)
  qed
  assume "reserveStock items s = (e, s')"
  then show ?thesis
    by (auto simp: reserveStock_def split: prod.splits option.splits if_splits dest: loop)
qed

lemma may_ship_rows:
  "may_ship oid lines s \<Longrightarrow> orderRows s1 = orderRows s \<Longrightarrow> may_ship oid lines s1"
  by (simp add: may_ship_def ledger_ok_def findOrder_def)

lemma shipped_within_rows:
  "shipped_within oid lines s1 s' \<Longrightarrow> orderRows s1 = orderRows s \<Longrightarrow> shipped_within oid lines s s'"
  by (simp add: shipped_within_def findOrder_def)

lemma may_ship_refl:
  "may_ship oid lines s \<Longrightarrow> orderRows s' = orderRows s \<Longrightarrow> shipped_within oid lines s s'"
  unfolding may_ship_def by (auto intro: shipped_within_refl)

lemma shipPackage_within:
  assumes "may_ship oid lines s" and "shipPackage oid lines s = (e, s')"
  shows "shipped_within oid lines s s'"
proof (cases "calculateTotalMass s lines > MAX_PACKAGE_WEIGHT_G")
  case True
  with assms(2) have "orderRows s' = orderRows s" by (simp add: shipPackage_def)
  with assms(1) show ?thesis by (rule may_ship_refl)
next
  case False
  obtain e1 s1 where r: "reserveStock lines s = (e1, s1)"
    by (cases "reserveStock lines s") auto
  from reserveStock_orderRows [OF r] have rows: "orderRows s1 = orderRows s" .
  show ?thesis
  proof (cases e1)
    case (Some err)
    with assms(2) False r rows have "orderRows s' = orderRows s" by (simp add: shipPackage_def)
    with assms(1) show ?thesis by (rule may_ship_refl)
  next
    case None
    obtain e2 s2 where ins: "insertShipments
        [\<lparr>s_orderId = oid, s_shippedItems = lines,
           totalMassG = calculateTotalMass s lines\<rparr>] s1 = (e2, s2)"
      by (cases "insertShipments
        [\<lparr>s_orderId = oid, s_shippedItems = lines,
           totalMassG = calculateTotalMass s lines\<rparr>] s1") auto
    from insertShipments_orderRows [OF ins] rows have rows2: "orderRows s2 = orderRows s" by simp
    show ?thesis
    proof (cases e2)
      case (Some err)
      with None assms(2) False r ins have "s' = s2" by (simp add: shipPackage_def)
      with rows2 have "orderRows s' = orderRows s" by simp
      with assms(1) show ?thesis by (rule may_ship_refl)
    next
      case inserted: None
      with None assms(2) False r ins have "updateOrderShipment oid lines s2 = (e, s')"
        by (simp add: shipPackage_def)
      from updateOrderShipment_within [OF may_ship_rows [OF assms(1) rows2] this]
      show ?thesis using rows2 by (rule shipped_within_rows)
    qed
  qed
qed

lemma shipped_within_trans:
  assumes "shipped_within oid lines1 s s1" and "shipped_within oid lines2 s1 s2"
  shows "shipped_within oid (lines1 @ lines2) s s2"
proof -
  from assms(1) obtain order order1 where
    a: "findOrder s oid = Some order" "findOrder s1 oid = Some order1"
       "requestedItems order1 = requestedItems order"
       "\<forall>p. qty_of p (shippedItems order1) \<le> qty_of p (shippedItems order) + qty_of p lines1"
    and frame1: "\<forall>other. other \<noteq> oid \<longrightarrow> findOrder s1 other = findOrder s other"
    unfolding shipped_within_def by blast
  from assms(2) a(2) obtain order2 where
    b: "findOrder s2 oid = Some order2" "requestedItems order2 = requestedItems order1"
       "\<forall>p. qty_of p (shippedItems order2) \<le> qty_of p (shippedItems order1) + qty_of p lines2"
    and frame2: "\<forall>other. other \<noteq> oid \<longrightarrow> findOrder s2 other = findOrder s1 other"
    and ok: "ledger_ok s2"
    unfolding shipped_within_def by auto
  have "\<forall>p. qty_of p (shippedItems order2)
          \<le> qty_of p (shippedItems order) + qty_of p (lines1 @ lines2)"
  proof
    fix p
    from a(4) b(3) have "qty_of p (shippedItems order1) \<le> qty_of p (shippedItems order) + qty_of p lines1"
      and "qty_of p (shippedItems order2) \<le> qty_of p (shippedItems order1) + qty_of p lines2"
      by simp_all
    then show "qty_of p (shippedItems order2)
          \<le> qty_of p (shippedItems order) + qty_of p (lines1 @ lines2)" by simp
  qed
  with a b ok frame1 frame2 show ?thesis
    unfolding shipped_within_def by simp
qed

lemma may_ship_next:
  assumes "may_ship oid (lines1 @ lines2) s" and "shipped_within oid lines1 s s1"
  shows "may_ship oid lines2 s1"
proof -
  from assms(2) obtain order order1 where
    a: "findOrder s oid = Some order" "findOrder s1 oid = Some order1"
       "requestedItems order1 = requestedItems order"
       "\<forall>p. qty_of p (shippedItems order1) \<le> qty_of p (shippedItems order) + qty_of p lines1"
    and ok: "ledger_ok s1"
    unfolding shipped_within_def by blast
  from assms(1) a(1) have
    bound: "\<forall>p. qty_of p (shippedItems order) + qty_of p (lines1 @ lines2)
               \<le> qty_of p (requestedItems order)"
    and nonneg: "\<forall>line\<in>set lines2. 0 \<le> quantity line"
    unfolding may_ship_def by auto
  have "\<forall>p. qty_of p (shippedItems order1) + qty_of p lines2 \<le> qty_of p (requestedItems order1)"
  proof
    fix p
    from a(4) bound have "qty_of p (shippedItems order1) \<le> qty_of p (shippedItems order) + qty_of p lines1"
      and "qty_of p (shippedItems order) + qty_of p (lines1 @ lines2) \<le> qty_of p (requestedItems order)"
      by simp_all
    with a(3) show "qty_of p (shippedItems order1) + qty_of p lines2 \<le> qty_of p (requestedItems order1)"
      by simp
  qed
  with ok nonneg a(2) show ?thesis unfolding may_ship_def by simp
qed

lemma may_ship_prefix:
  assumes "may_ship oid (lines1 @ lines2) s"
  shows "may_ship oid lines1 s"
proof -
  from assms obtain order where
    a: "findOrder s oid = Some order" "ledger_ok s"
       "\<forall>p. qty_of p (shippedItems order) + qty_of p (lines1 @ lines2)
               \<le> qty_of p (requestedItems order)"
    and nonneg: "\<forall>line\<in>set lines1. 0 \<le> quantity line" "\<forall>line\<in>set lines2. 0 \<le> quantity line"
    unfolding may_ship_def by auto
  have "\<forall>p. qty_of p (shippedItems order) + qty_of p lines1 \<le> qty_of p (requestedItems order)"
  proof
    fix p
    from a(3) have "qty_of p (shippedItems order) + qty_of p (lines1 @ lines2)
               \<le> qty_of p (requestedItems order)" by simp
    with qty_of_nonneg [OF nonneg(2), of p]
    show "qty_of p (shippedItems order) + qty_of p lines1 \<le> qty_of p (requestedItems order)"
      by simp
  qed
  with a nonneg show ?thesis unfolding may_ship_def by simp
qed

lemma shipped_within_larger:
  assumes "shipped_within oid lines' s s'" and "\<forall>p. qty_of p lines' \<le> qty_of p lines"
  shows "shipped_within oid lines s s'"
proof -
  from assms(1) obtain order order' where
    a: "findOrder s oid = Some order" "findOrder s' oid = Some order'"
       "requestedItems order' = requestedItems order"
       "\<forall>p. qty_of p (shippedItems order') \<le> qty_of p (shippedItems order) + qty_of p lines'"
    and rest: "ledger_ok s'" "\<forall>other. other \<noteq> oid \<longrightarrow> findOrder s' other = findOrder s other"
    unfolding shipped_within_def by blast
  have "\<forall>p. qty_of p (shippedItems order') \<le> qty_of p (shippedItems order) + qty_of p lines"
  proof
    fix p
    from a(4) assms(2) have "qty_of p (shippedItems order') \<le> qty_of p (shippedItems order) + qty_of p lines'"
      and "qty_of p lines' \<le> qty_of p lines" by simp_all
    then show "qty_of p (shippedItems order') \<le> qty_of p (shippedItems order) + qty_of p lines"
      by simp
  qed
  with a rest show ?thesis unfolding shipped_within_def by simp
qed

lemma may_ship_smaller:
  assumes "may_ship oid lines s" and "\<forall>line\<in>set lines'. 0 \<le> quantity line"
    and "\<forall>p. qty_of p lines' \<le> qty_of p lines"
  shows "may_ship oid lines' s"
proof -
  from assms(1) obtain order where
    a: "findOrder s oid = Some order" "ledger_ok s"
       "\<forall>p. qty_of p (shippedItems order) + qty_of p lines \<le> qty_of p (requestedItems order)"
    unfolding may_ship_def by auto
  have "\<forall>p. qty_of p (shippedItems order) + qty_of p lines' \<le> qty_of p (requestedItems order)"
  proof
    fix p
    from a(3) assms(3) have "qty_of p (shippedItems order) + qty_of p lines \<le> qty_of p (requestedItems order)"
      and "qty_of p lines' \<le> qty_of p lines" by simp_all
    then show "qty_of p (shippedItems order) + qty_of p lines' \<le> qty_of p (requestedItems order)"
      by simp
  qed
  with a assms(2) show ?thesis unfolding may_ship_def by simp
qed

lemma shipPackages_within:
  "may_ship oid (concat pkgs) s \<Longrightarrow> shipPackages oid pkgs s = (e, s') \<Longrightarrow>
     shipped_within oid (concat pkgs) s s'"
proof (induction pkgs arbitrary: s)
  case Nil
  then have "may_ship oid [] s" and "orderRows s' = orderRows s" by simp_all
  then show ?case by (simp add: may_ship_refl)
next
  case (Cons pkg rest)
  from Cons.prems(1) have all: "may_ship oid (pkg @ concat rest) s" by simp
  obtain e1 s1 where one: "shipPackage oid pkg s = (e1, s1)"
    by (cases "shipPackage oid pkg s") auto
  from shipPackage_within [OF may_ship_prefix [OF all] one]
  have first: "shipped_within oid pkg s s1" .
  show ?case
  proof (cases e1)
    case None
    with Cons.prems(2) one have "shipPackages oid rest s1 = (e, s')" by simp
    from Cons.IH [OF may_ship_next [OF all first] this]
    have "shipped_within oid (concat rest) s1 s'" .
    with first show ?thesis by (simp add: shipped_within_trans)
  next
    case (Some err)
    with Cons.prems(2) one have same: "s' = s1" by simp
    from all have "\<forall>line\<in>set (concat rest). 0 \<le> quantity line"
      by (auto simp: may_ship_def)
    from qty_of_nonneg [OF this] have "\<forall>p. qty_of p pkg \<le> qty_of p (concat (pkg # rest))"
      by simp
    from shipped_within_larger [OF first this] same show ?thesis by simp
  qed
qed

lemma addItem_nonneg:
  "\<forall>x\<in>set items. 0 \<le> quantity x \<Longrightarrow> 0 \<le> quantity it \<Longrightarrow> \<forall>x\<in>set (addItem items it). 0 \<le> quantity x"
  by (induction items) auto

lemma foldl_addItem_nonneg:
  "\<forall>x\<in>set items. 0 \<le> quantity x \<Longrightarrow> \<forall>x\<in>set new. 0 \<le> quantity x \<Longrightarrow>
     \<forall>x\<in>set (foldl addItem items new). 0 \<le> quantity x"
proof (induction new arbitrary: items)
  case Nil
  then show ?case by simp
next
  case (Cons it rest)
  from Cons.prems have first: "\<forall>x\<in>set (addItem items it). 0 \<le> quantity x"
    by (intro addItem_nonneg) simp_all
  from Cons.prems(2) have "\<forall>x\<in>set rest. 0 \<le> quantity x" by simp
  from Cons.IH [OF first this] show ?case by simp
qed

lemma collectBatch_bounds:
  "collectBatch s oid batch allBatchItems shipmentData = (collected, shipmentData') \<Longrightarrow>
     \<forall>line\<in>set allBatchItems. 0 \<le> quantity line \<Longrightarrow>
     \<forall>line\<in>set (concat batch). 0 \<le> quantity line \<Longrightarrow>
     (\<forall>line\<in>set collected. 0 \<le> quantity line)
     \<and> (\<forall>p. qty_of p collected \<le> qty_of p allBatchItems + qty_of p (concat batch))"
proof (induction batch arbitrary: allBatchItems shipmentData)
  case Nil
  then show ?case by simp
next
  case (Cons pkg rest)
  from Cons.prems(3) have pkg: "\<forall>line\<in>set pkg. 0 \<le> quantity line"
    and rest: "\<forall>line\<in>set (concat rest). 0 \<le> quantity line" by auto
  show ?case
  proof (cases "calculateTotalMass s pkg > MAX_PACKAGE_WEIGHT_G")
    case True
    with Cons.prems(1) have "collectBatch s oid rest allBatchItems shipmentData = (collected, shipmentData')"
      by simp
    from Cons.IH [OF this Cons.prems(2) rest]
    have nonneg: "\<forall>line\<in>set collected. 0 \<le> quantity line"
      and le: "\<forall>p. qty_of p collected \<le> qty_of p allBatchItems + qty_of p (concat rest)"
      by simp_all
    have "\<forall>p. qty_of p collected \<le> qty_of p allBatchItems + qty_of p (concat (pkg # rest))"
    proof
      fix p
      from le have "qty_of p collected \<le> qty_of p allBatchItems + qty_of p (concat rest)" by simp
      with qty_of_nonneg [OF pkg, of p]
      show "qty_of p collected \<le> qty_of p allBatchItems + qty_of p (concat (pkg # rest))"
        by simp
    qed
    with nonneg show ?thesis by simp
  next
    case False
    let ?items = "foldl addItem allBatchItems pkg"
    from False Cons.prems(1) obtain data where
      "collectBatch s oid rest ?items data = (collected, shipmentData')"
      by (simp add: Let_def)
    from Cons.IH [OF this foldl_addItem_nonneg [OF Cons.prems(2) pkg] rest]
    show ?thesis by (simp add: qty_of_foldl_addItem add.assoc)
  qed
qed

lemma processBatch_within:
  assumes "may_ship oid (concat batch) s" and "processBatch oid batch s = (e, s')"
  shows "shipped_within oid (concat batch) s s'"
proof -
  obtain collected shipmentData where c: "collectBatch s oid batch [] [] = (collected, shipmentData)"
    by (cases "collectBatch s oid batch [] []") auto
  from assms(1) have "\<forall>line\<in>set (concat batch). 0 \<le> quantity line"
    by (simp add: may_ship_def)
  from collectBatch_bounds [OF c _ this]
  have nonneg: "\<forall>line\<in>set collected. 0 \<le> quantity line"
    and le: "\<forall>p. qty_of p collected \<le> qty_of p (concat batch)" by simp_all
  from may_ship_smaller [OF assms(1) nonneg le] have may: "may_ship oid collected s" .
  obtain e1 s1 where r: "(if collected \<noteq> [] then reserveStock collected s else (None, s)) = (e1, s1)"
    by (cases "if collected \<noteq> [] then reserveStock collected s else (None, s)") auto
  then have rows1: "orderRows s1 = orderRows s"
    by (auto split: if_splits dest: reserveStock_orderRows)
  have "shipped_within oid collected s s'"
  proof (cases e1)
    case (Some err)
    with assms(2) c r have "s' = s1" by (simp add: processBatch_def)
    with rows1 have "orderRows s' = orderRows s" by simp
    with may show ?thesis by (rule may_ship_refl)
  next
    case None
    obtain e2 s2 where
      ins: "(if shipmentData \<noteq> [] then insertShipments shipmentData s1 else (None, s1)) = (e2, s2)"
      by (cases "if shipmentData \<noteq> [] then insertShipments shipmentData s1 else (None, s1)") auto
    with rows1 have rows2: "orderRows s2 = orderRows s"
      by (auto split: if_splits dest: insertShipments_orderRows)
    show ?thesis
    proof (cases e2)
      case (Some err)
      with None assms(2) c r ins have "s' = s2" by (simp add: processBatch_def)
      with rows2 have "orderRows s' = orderRows s" by simp
      with may show ?thesis by (rule may_ship_refl)
    next
      case inserted: None
      with None assms(2) c r ins
      have run: "(if collected \<noteq> [] then updateOrderShipment oid collected s2 else (None, s2)) = (e, s')"
        by (simp add: processBatch_def)
      show ?thesis
      proof (cases "collected = []")
        case True
        with run have "s' = s2" by simp
        with rows2 have "orderRows s' = orderRows s" by simp
        with may show ?thesis by (rule may_ship_refl)
      next
        case False
        with run have "updateOrderShipment oid collected s2 = (e, s')" by simp
        from updateOrderShipment_within [OF may_ship_rows [OF may rows2] this]
        show ?thesis using rows2 by (rule shipped_within_rows)
      qed
    qed
  qed
  then show ?thesis using le by (rule shipped_within_larger)
qed

lemma batchLoop_within:
  "may_ship oid (concat (drop i pkgs)) s \<Longrightarrow> batchLoop oid pkgs i s = (e, s') \<Longrightarrow>
     shipped_within oid (concat (drop i pkgs)) s s'"
proof (induction oid pkgs i s rule: batchLoop.induct)
  case (1 oid pkgs i s)
  show ?case
  proof (cases "i < length pkgs")
    case False
    with "1.prems"(2) have "orderRows s' = orderRows s"
      by (simp add: batchLoop.simps [of oid pkgs i s])
    with "1.prems"(1) show ?thesis by (rule may_ship_refl)
  next
    case True
    let ?batch = "take BATCH_SIZE (drop i pkgs)"
    have "?batch @ drop BATCH_SIZE (drop i pkgs) = drop i pkgs"
      by (rule append_take_drop_id)
    moreover have "drop BATCH_SIZE (drop i pkgs) = drop (i + BATCH_SIZE) pkgs"
      by (simp add: add.commute)
    ultimately have "drop i pkgs = ?batch @ drop (i + BATCH_SIZE) pkgs" by simp
    then have parts: "concat (drop i pkgs) = concat ?batch @ concat (drop (i + BATCH_SIZE) pkgs)"
      by (metis concat_append)
    with "1.prems"(1) have all: "may_ship oid (concat ?batch @ concat (drop (i + BATCH_SIZE) pkgs)) s"
      by simp
    obtain e1 s1 where one: "processBatch oid ?batch s = (e1, s1)"
      by (cases "processBatch oid ?batch s") auto
    from processBatch_within [OF may_ship_prefix [OF all] one]
    have first: "shipped_within oid (concat ?batch) s s1" .
    show ?thesis
    proof (cases e1)
      case None
      with "1.prems"(2) True one have run: "batchLoop oid pkgs (i + BATCH_SIZE) s1 = (e, s')"
        by (simp add: batchLoop.simps [of oid pkgs i s])
      from "1.IH" [OF True one [symmetric] None may_ship_next [OF all first] run]
      have "shipped_within oid (concat (drop (i + BATCH_SIZE) pkgs)) s1 s'" .
      with first show ?thesis unfolding parts by (rule shipped_within_trans)
    next
      case (Some err)
      with "1.prems"(2) True one have same: "s' = s1"
        by (simp add: batchLoop.simps [of oid pkgs i s])
      from all have "\<forall>line\<in>set (concat (drop (i + BATCH_SIZE) pkgs)). 0 \<le> quantity line"
        by (auto simp: may_ship_def)
      from qty_of_nonneg [OF this]
      have "\<forall>p. qty_of p (concat ?batch) \<le> qty_of p (concat (drop i pkgs))"
        unfolding parts by simp
      from shipped_within_larger [OF first this] same show ?thesis by simp
    qed
  qed
qed

lemma attemptFulfillment_ledger:
  assumes "ledger_ok s" and "findOrder s (orderId order) = Some order"
    and "attemptFulfillment order s = Some (e, s')"
  shows "ledger_ok s'"
    and "\<forall>other. other \<noteq> orderId order \<longrightarrow> findOrder s' other = findOrder s other"
proof -
  let ?remaining = "getRemainingItems order"
  let ?shippable = "getShippableItems s ?remaining"
  have "ledger_ok s' \<and> (\<forall>other. other \<noteq> orderId order \<longrightarrow> findOrder s' other = findOrder s other)"
  proof (cases "?remaining = [] \<or> ?shippable = []")
    case True
    with assms(3) have "s' = s"
      by (auto simp: attemptFulfillment_def Let_def split: if_splits)
    with assms(1) show ?thesis by simp
  next
    case False
    with assms(3) obtain pkgs where
      pack: "packShipment s ?shippable MAX_PACKAGE_WEIGHT_G = Some pkgs"
      and run: "(if length pkgs > 100 then batchShipPackages (orderId order) pkgs s
                 else shipPackages (orderId order) pkgs s) = (e, s')"
      by (auto simp: attemptFulfillment_def Let_def split: option.splits)
    from getShippableItems_positive [of s ?remaining]
    have nonneg: "\<forall>line\<in>set ?shippable. 0 \<le> quantity line" by fastforce
    from getRemainingItems_positive [of order]
    have nonneg': "\<forall>line\<in>set ?remaining. 0 \<le> quantity line" by fastforce
    have W: "0 < MAX_PACKAGE_WEIGHT_G" by (simp add: MAX_PACKAGE_WEIGHT_G_def)
    from packShipment_bounds(2) [OF pack W nonneg]
    have lines: "\<forall>line\<in>set (concat pkgs). 0 \<le> quantity line" by fastforce
    from findOrder_ok [OF assms(1,2)] have ok: "order_ok order" .
    have "\<forall>p. qty_of p (shippedItems order) + qty_of p (concat pkgs) \<le> qty_of p (requestedItems order)"
    proof
      fix p
      from packShipment_bounds(1) [OF pack W nonneg, of p]
        getShippableItems_bound [OF nonneg', of p s]
        getRemainingItems_bound [OF ok, of p]
      show "qty_of p (shippedItems order) + qty_of p (concat pkgs) \<le> qty_of p (requestedItems order)"
        by simp
    qed
    with assms(1,2) lines have may: "may_ship (orderId order) (concat pkgs) s"
      by (simp add: may_ship_def)
    have "shipped_within (orderId order) (concat pkgs) s s'"
    proof (cases "length pkgs > 100")
      case True
      with run have "batchLoop (orderId order) pkgs 0 s = (e, s')"
        by (simp add: batchShipPackages_def)
      with may batchLoop_within [of "orderId order" 0 pkgs s e s'] show ?thesis by simp
    next
      case False
      with run have "shipPackages (orderId order) pkgs s = (e, s')" by simp
      with may show ?thesis by (rule shipPackages_within)
    qed
    then show ?thesis by (simp add: shipped_within_def)
  qed
  then show "ledger_ok s'"
    and "\<forall>other. other \<noteq> orderId order \<longrightarrow> findOrder s' other = findOrder s other"
    by simp_all
qed

lemma attemptAll_ledger:
  "ledger_ok s \<Longrightarrow> distinct (map orderId orders) \<Longrightarrow>
     \<forall>order\<in>set orders. findOrder s (orderId order) = Some order \<Longrightarrow>
     attemptAll orders s = Some (e, s') \<Longrightarrow> ledger_ok s'"
proof (induction orders arbitrary: s)
  case Nil
  then show ?case by simp
next
  case (Cons order rest)
  from Cons.prems(4) obtain e1 s1 where one: "attemptFulfillment order s = Some (e1, s1)"
    by (auto split: option.splits)
  from Cons.prems(3) have found: "findOrder s (orderId order) = Some order" by simp
  from attemptFulfillment_ledger [OF Cons.prems(1) found one]
  have ok1: "ledger_ok s1"
    and frame: "\<forall>other. other \<noteq> orderId order \<longrightarrow> findOrder s1 other = findOrder s other"
    by simp_all
  show ?case
  proof (cases e1)
    case (Some err)
    with Cons.prems(4) one ok1 show ?thesis by simp
  next
    case None
    with Cons.prems(4) one have run: "attemptAll rest s1 = Some (e, s')" by simp
    from Cons.prems(2) have d: "distinct (map orderId rest)"
      and fresh: "\<forall>other\<in>set rest. orderId other \<noteq> orderId order"
      by (auto simp: image_iff)
    with Cons.prems(3) frame
    have "\<forall>other\<in>set rest. findOrder s1 (orderId other) = Some other" by simp
    from Cons.IH [OF ok1 d this run] show ?thesis .
  qed
qed

lemma distinct_map_insort_key:
  "distinct (map f (insort_key k x xs)) = (f x \<notin> f ` set xs \<and> distinct (map f xs))"
  by (induction xs) (auto simp: set_insort_key)

lemma distinct_map_sort_key: "distinct (map f (sort_key k xs)) = distinct (map f xs)"
  by (induction xs) (simp_all add: distinct_map_insort_key)

lemma fulfillPendingOrders_ledger:
  assumes "ledger_ok s" and "fulfillPendingOrders s = Some (e, s')"
  shows "ledger_ok s'"
proof -
  let ?orders = "sort_key createdAt
            (filter (\<lambda>row. status row = PENDING \<or> status row = PARTIALLY_FULFILLED) (orderRows s))"
  let ?s1 = "s\<lparr>pendingOrders := fold (\<lambda>order cache. cache(orderId order \<mapsto> order)) ?orders Map.empty\<rparr>"
  from assms(2) have run: "attemptAll ?orders ?s1 = Some (e, s')"
    by (simp add: fulfillPendingOrders_def getPendingOrders_def Let_def)
  from assms(1) have ok1: "ledger_ok ?s1" by (simp add: ledger_ok_def)
  from assms(1) have d: "distinct (map orderId ?orders)"
    by (simp add: ledger_ok_def distinct_map_sort_key distinct_map_filter)
  from assms(1) have "\<forall>order\<in>set ?orders. findOrder ?s1 (orderId order) = Some order"
    by (auto simp: ledger_ok_def findOrder_def intro: find_distinct_mem)
  from attemptAll_ledger [OF ok1 d this run] show ?thesis .
qed

lemma inventory_processRestock_orderRows:
  "orderRows (inventory_processRestock restock s) = orderRows s"
proof -
  have loop: "\<And>s upd s' upd'. restock_loop restock s upd = (s', upd') \<Longrightarrow> orderRows s' = orderRows s"
  proof (induction restock)
    case Nil
    then show ?case by simp
  next
    case (Cons entry rest)
    obtain pid q where "entry = (pid, q)" by (cases entry)
    with Cons show ?case by (fastforce split: option.splits)
  qed
  show ?thesis
    by (auto simp: inventory_processRestock_def split: prod.splits dest: loop)
qed

lemma initCatalog_orderRows: "initCatalog productInfo s = (e, s') \<Longrightarrow> orderRows s' = orderRows s"
proof -
  have loop: "\<And>s. orderRows (initCatalog_loop productInfo s) = orderRows s"
    by (induction productInfo) (simp_all add: Let_def)
  assume "initCatalog productInfo s = (e, s')"
  then show ?thesis by (auto simp: initCatalog_def loop split: if_splits)
qed

lemma ledger_ok_rows: "orderRows s' = orderRows s \<Longrightarrow> ledger_ok s' = ledger_ok s"
  by (simp add: ledger_ok_def)

lemma qty_of_requested_nonneg:
  "list_all (\<lambda>(pid, q). 0 < q) requested \<Longrightarrow>
     \<forall>line\<in>set (map (\<lambda>(pid, q). Item pid q) requested). 0 \<le> quantity line"
  by (induction requested) auto

lemma enqueueOrder_ledger:
  assumes "ledger_ok s" and "list_all (\<lambda>(pid, q). 0 < q) requested"
    and "covers_shipped s oid requested"
    and "enqueueOrder oid requested now s = (order, s')"
  shows "ledger_ok s'" and "findOrder s' (orderId order) = Some order"
proof -
  let ?items = "map (\<lambda>(pid, q). Item pid q) requested"
  from qty_of_requested_nonneg [OF assms(2)]
  have nonneg: "\<forall>line\<in>set ?items. 0 \<le> quantity line" .
  have "ledger_ok s' \<and> findOrder s' (orderId order) = Some order"
  proof (cases "findOrder s oid")
    case None
    let ?new = "\<lparr>orderId = oid, requestedItems = ?items, shippedItems = [], status = PENDING,
                 totalShipments = 0, createdAt = now\<rparr>"
    from None assms(4) have order: "order = ?new"
      and rows: "orderRows s' = saveOrderRow ?new (orderRows s)"
      by (auto simp: enqueueOrder_def Let_def)
    from None have absent: "find (\<lambda>row. orderId row = orderId ?new) (orderRows s) = None"
      by (simp add: findOrder_def)
    then have "oid \<notin> orderId ` set (orderRows s)"
      by (auto simp: find_None_iff)
    with map_orderId_saveOrderRow_new [OF absent] assms(1) rows
    have d: "distinct (map orderId (orderRows s'))" by (simp add: ledger_ok_def)
    from nonneg qty_of_nonneg [OF nonneg] have "order_ok ?new" by (simp add: order_ok_def)
    with assms(1) rows set_saveOrderRow [of ?new "orderRows s"]
    have "\<forall>row\<in>set (orderRows s'). order_ok row" by (auto simp: ledger_ok_def)
    with d rows order show ?thesis
      by (simp add: ledger_ok_def findOrder_def find_saveOrderRow_same)
  next
    case (Some existing)
    let ?new = "existing\<lparr>requestedItems := ?items, status := PENDING\<rparr>"
    from Some assms(4) have order: "order = ?new"
      and rows: "orderRows s' = saveOrderRow ?new (orderRows s)"
      by (auto simp: enqueueOrder_def Let_def)
    from findOrder_ok [OF assms(1) Some] have old: "order_ok existing" .
    from Some assms(3) have cover: "\<forall>line\<in>set (shippedItems existing).
        quantity line \<le> qty_of (productId line) ?items"
      by (simp add: covers_shipped_def list_all_iff)
    have "order_ok ?new"
      unfolding order_ok_def
    proof (intro conjI allI)
      from old show "distinct (map productId (shippedItems ?new))" by (simp add: order_ok_def)
      from nonneg show "\<forall>line\<in>set (requestedItems ?new). 0 \<le> quantity line" by simp
      fix p
      from old show "0 \<le> qty_of p (shippedItems ?new)" by (simp add: order_ok_def)
      show "qty_of p (shippedItems ?new) \<le> qty_of p (requestedItems ?new)"
      proof (cases "p \<in> productId ` set (shippedItems existing)")
        case False
        with qty_of_nonneg [OF nonneg, of p] show ?thesis by (simp add: qty_of_absent)
      next
        case True
        then obtain line where line: "line \<in> set (shippedItems existing)" "productId line = p"
          by auto
        from old have d: "distinct (map productId (shippedItems existing))"
          by (simp add: order_ok_def)
        from line have "find (\<lambda>it. productId it = p) (shippedItems existing) \<noteq> None"
          by (auto simp: find_None_iff)
        then obtain found where f: "find (\<lambda>it. productId it = p) (shippedItems existing) = Some found"
          by auto
        from find_mem [OF f] cover have "quantity found \<le> qty_of p ?items" by auto
        with find_qty_of [OF d, of p] f show ?thesis by simp
      qed
    qed
    from Some have id: "orderId ?new = oid" by (simp add: findOrder_orderId)
    from ledger_ok_replace(1,2) [OF assms(1) Some id \<open>order_ok ?new\<close> rows] order id
    show ?thesis by simp
  qed
  then show "ledger_ok s'" and "findOrder s' (orderId order) = Some order" by simp_all
qed

lemma ledger_reachable_ok: "ledger_reachable s \<Longrightarrow> ledger_ok s"
proof (induction rule: ledger_reachable.induct)
  case ledger_start
  show ?case by (simp add: ledger_ok_def initial_system_def)
next
  case (ledger_initCatalog s productInfo e s')
  then show ?case by (simp add: ledger_ok_rows [OF initCatalog_orderRows])
next
  case (ledger_resetCatalog s)
  then show ?case by (simp add: ledger_ok_def resetCatalog_def)
next
  case (ledger_reserveStock s items e s')
  then show ?case by (simp add: ledger_ok_rows [OF reserveStock_orderRows])
next
  case (ledger_inventory_processRestock s restock)
  then show ?case by (simp add: ledger_ok_def inventory_processRestock_orderRows)
next
  case (ledger_processRestock s restock e s')
  from ledger_processRestock.IH have "ledger_ok (inventory_processRestock restock s)"
    by (simp add: ledger_ok_def inventory_processRestock_orderRows)
  with ledger_processRestock.hyps(2) show ?case
    unfolding processRestock_def by (rule fulfillPendingOrders_ledger [rotated])
next
  case (ledger_enqueueOrder s requested oid now order s')
  then show ?case by (blast intro: enqueueOrder_ledger(1))
next
  case (ledger_processOrder s requested oid now e s')
  obtain order s1 where q: "enqueueOrder oid requested now s = (order, s1)"
    by (cases "enqueueOrder oid requested now s") auto
  from enqueueOrder_ledger [OF ledger_processOrder.IH ledger_processOrder.hyps(2,3) q]
  have ok1: "ledger_ok s1" and found: "findOrder s1 (orderId order) = Some order" by simp_all
  from ledger_processOrder.hyps(4) q have "attemptFulfillment order s1 = Some (e, s')"
    by (simp add: processOrder_def)
  from attemptFulfillment_ledger(1) [OF ok1 found this] show ?case .
next
  case (ledger_updateOrderShipment s oid order lines e s')
  from ledger_updateOrderShipment.hyps(3)
  have nonneg: "\<forall>line\<in>set lines. 0 \<le> quantity line" by (simp add: list_all_iff)
  from findOrder_ok [OF ledger_updateOrderShipment.IH ledger_updateOrderShipment.hyps(2)]
  have ok: "order_ok order" .
  have "\<forall>p. qty_of p (shippedItems order) + qty_of p lines \<le> qty_of p (requestedItems order)"
  proof
    fix p
    show "qty_of p (shippedItems order) + qty_of p lines \<le> qty_of p (requestedItems order)"
    proof (cases "p \<in> productId ` set lines")
      case True
      with ledger_updateOrderShipment.hyps(4) show ?thesis by (auto simp: list_all_iff)
    next
      case False
      with ok show ?thesis by (simp add: qty_of_absent order_ok_def)
    qed
  qed
  with ledger_updateOrderShipment.IH ledger_updateOrderShipment.hyps(2) nonneg
  have "may_ship oid lines s" by (simp add: may_ship_def)
  from updateOrderShipment_within [OF this ledger_updateOrderShipment.hyps(5)]
  show ?case by (simp add: shipped_within_def)
qed

lemma processRestock_stocked:
  "processRestock [(0, 5)] initialised_system = Some (None, stocked_system)"
  by (simp add: processRestock_def fulfillPendingOrders_def getPendingOrders_def
        stocked_system_def inventory_processRestock_def initialised_system_def initCatalog_def
        initial_system_def saveProducts_def Let_def)

lemma processOrder_shipped:
  "processOrder 1 [(0, 3)] 10 stocked_system = Some (None, shipped_system)"
proof -
  have "(case processOrder 1 [(0, 3)] 10 stocked_system of
           None \<Rightarrow> False | Some (e, s) \<Rightarrow> e = None)"
    by code_simp
  then show ?thesis
    unfolding shipped_system_def by (auto split: option.splits)
qed

lemma processOrder_resubmitted:
  "processOrder 1 [(0, 2)] 11 shipped_system = Some (None, resubmitted_system)"
proof -
  have "(case processOrder 1 [(0, 2)] 11 shipped_system of
           None \<Rightarrow> False | Some (e, s) \<Rightarrow> e = None)"
    by code_simp
  then show ?thesis
    unfolding resubmitted_system_def by (auto split: option.splits)
qed

lemma processOrder_extended:
  "processOrder 1 [(0, 4)] 12 shipped_system = Some (None, extended_system)"
proof -
  have "(case processOrder 1 [(0, 4)] 12 shipped_system of
           None \<Rightarrow> False | Some (e, s) \<Rightarrow> e = None)"
    by code_simp
  then show ?thesis
    unfolding extended_system_def by (auto split: option.splits)
qed

lemma reachable_shipped_system: "reachable shipped_system"
proof -
  have "reachable initialised_system"
    unfolding initialised_system_def
    by (rule reachable_initCatalog [OF reachable_start]) (rule surjective_pairing)
  then have "reachable stocked_system"
    by (rule reachable_processRestock [OF _ _ processRestock_stocked]) simp
  then show ?thesis by (rule reachable_processOrder [OF _ processOrder_shipped])
qed

text \<open>
  C2 as stated fails: order 1 is submitted for three units of product 0 and shipped in full,
  then submitted again for two units.  \<open>enqueueOrder\<close> replaces the requested items and
  keeps the shipped ones, so the reachable state holds an order with three units shipped
  against two requested.
\<close>

theorem shipped_exceeds_requested_after_resubmission:
  "reachable resubmitted_system
   \<and> orderRows resubmitted_system
       = [\<lparr>orderId = 1, requestedItems = [Item 0 2], shippedItems = [Item 0 3],
           status = PENDING, totalShipments = 2, createdAt = 10\<rparr>]
   \<and> \<not> (\<forall>order\<in>set (orderRows resubmitted_system). \<forall>p.
           shippedQuantity order p \<le> requestedQuantity order p)"
proof -
  have r: "reachable resubmitted_system"
    by (rule reachable_processOrder [OF reachable_shipped_system processOrder_resubmitted])
  have rows: "orderRows resubmitted_system
       = [\<lparr>orderId = 1, requestedItems = [Item 0 2], shippedItems = [Item 0 3],
           status = PENDING, totalShipments = 2, createdAt = 10\<rparr>]"
    by code_simp
  have "\<not> shippedQuantity \<lparr>orderId = 1, requestedItems = [Item 0 2], shippedItems = [Item 0 3],
           status = PENDING, totalShipments = 2, createdAt = 10\<rparr> 0
          \<le> requestedQuantity \<lparr>orderId = 1, requestedItems = [Item 0 2], shippedItems = [Item 0 3],
           status = PENDING, totalShipments = 2, createdAt = 10\<rparr> 0"
    by (simp add: shippedQuantity_def requestedQuantity_def)
  with r rows show ?thesis by auto
qed

text \<open>
  C2 as amended: in every state reached through \<open>initCatalog\<close>, \<open>resetCatalog\<close>,
  \<open>reserveStock\<close>, \<open>processRestock\<close>, \<open>enqueueOrder\<close>, \<open>processOrder\<close> and
  \<open>updateOrderShipment\<close>, where an order id is submitted again only with a list that covers
  what the order has shipped and \<open>updateOrderShipment\<close> is called on its own only with lines
  the order still lacks, every order's shipped quantity of every product is at most its
  requested quantity of that product.
\<close>

theorem shipped_at_most_requested:
  assumes "ledger_reachable s" and "order \<in> set (orderRows s)"
  shows "shippedQuantity order p \<le> requestedQuantity order p"
proof -
  from ledger_reachable_ok [OF assms(1)] assms(2) have "order_ok order"
    by (simp add: ledger_ok_def)
  then show ?thesis
    by (simp add: order_ok_def shippedQuantity_qty_of requestedQuantity_def)
qed

theorem shipped_at_most_requested_witness:
  "ledger_reachable extended_system
   \<and> orderRows extended_system
       = [\<lparr>orderId = 1, requestedItems = [Item 0 4], shippedItems = [Item 0 4],
           status = FULFILLED, totalShipments = 3, createdAt = 10\<rparr>]
   \<and> shippedQuantity \<lparr>orderId = 1, requestedItems = [Item 0 4], shippedItems = [Item 0 4],
           status = FULFILLED, totalShipments = 3, createdAt = 10\<rparr> 0
       \<le> requestedQuantity \<lparr>orderId = 1, requestedItems = [Item 0 4], shippedItems = [Item 0 4],
           status = FULFILLED, totalShipments = 3, createdAt = 10\<rparr> 0"
proof -
  have "ledger_reachable initialised_system"
    unfolding initialised_system_def
    by (rule ledger_initCatalog [OF ledger_start]) (rule surjective_pairing)
  then have "ledger_reachable stocked_system"
    by (rule ledger_processRestock [OF _ processRestock_stocked])
  then have "ledger_reachable shipped_system"
    by (rule ledger_processOrder [OF _ _ _ processOrder_shipped]) code_simp+
  then have r: "ledger_reachable extended_system"
    by (rule ledger_processOrder [OF _ _ _ processOrder_extended]) code_simp+
  have rows: "orderRows extended_system
       = [\<lparr>orderId = 1, requestedItems = [Item 0 4], shippedItems = [Item 0 4],
           status = FULFILLED, totalShipments = 3, createdAt = 10\<rparr>]"
    by code_simp
  then have mem: "\<lparr>orderId = 1, requestedItems = [Item 0 4], shippedItems = [Item 0 4],
           status = FULFILLED, totalShipments = 3, createdAt = 10\<rparr> \<in> set (orderRows extended_system)"
    by simp
  from shipped_at_most_requested [OF r mem, of 0] r rows show ?thesis by simp
qed

section \<open>Properties: a reserve failure during a pass\<close>

lemma same_masses_refl [simp]: "same_masses s s"
  by (simp add: same_masses_def)

lemma same_masses_trans: "same_masses s s1 \<Longrightarrow> same_masses s1 s2 \<Longrightarrow> same_masses s s2"
  by (simp add: same_masses_def)

lemma same_masses_catalog: "catalog s' = catalog s \<Longrightarrow> same_masses s s'"
  by (simp add: same_masses_def)

lemma same_masses_line_mass: "same_masses s s' \<Longrightarrow> line_mass s' = line_mass s"
proof
  fix it
  assume "same_masses s s'"
  then have "map_option massG (catalog s' (productId it)) = map_option massG (catalog s (productId it))"
    by (simp add: same_masses_def)
  then show "line_mass s' it = line_mass s it"
    by (cases "catalog s' (productId it)"; cases "catalog s (productId it)")
       (auto simp: line_mass_def getProduct_def)
qed

lemma same_masses_total: "same_masses s s' \<Longrightarrow> calculateTotalMass s' items = calculateTotalMass s items"
  by (simp add: calculateTotalMass_sum same_masses_line_mass)

lemma same_masses_shipment_row: "same_masses s s' \<Longrightarrow> shipment_row s' oid lines = shipment_row s oid lines"
  by (simp add: shipment_row_def same_masses_total)

lemma shipped_more_refl [simp]: "shipped_more row [] row"
  by (simp add: shipped_more_def)

lemma shipped_more_trans:
  "shipped_more row lines1 row1 \<Longrightarrow> shipped_more row1 lines2 row2 \<Longrightarrow>
     shipped_more row (lines1 @ lines2) row2"
  by (simp add: shipped_more_def)

text \<open>What \<^verbatim>\<open>reserveStock\<close> leaves alone whatever its outcome, and what it does when it succeeds.\<close>

lemma reserve_loop_frame:
  "reserve_loop items s upd = (e, s', upd') \<Longrightarrow>
     same_masses s s' \<and> orderRows s' = orderRows s \<and> shipmentRows s' = shipmentRows s
     \<and> productRows s' = productRows s
     \<and> (\<forall>p. p \<notin> productId ` set items \<longrightarrow> catalog s' p = catalog s p)"
proof (induction items arbitrary: s upd)
  case Nil
  then show ?case by simp
next
  case (Cons it rest)
  show ?case
  proof (cases "catalog s (productId it)")
    case None
    with Cons.prems show ?thesis by simp
  next
    case (Some product)
    show ?thesis
    proof (cases "quantityInStock product < quantity it")
      case True
      with Some Cons.prems show ?thesis by simp
    next
      case False
      let ?s1 = "s\<lparr>catalog := (catalog s)(productId it \<mapsto>
                        product\<lparr>quantityInStock := quantityInStock product - quantity it\<rparr>)\<rparr>"
      from False Some Cons.prems
      have "reserve_loop rest ?s1 (upd @ [productId it]) = (e, s', upd')" by simp
      from Cons.IH [OF this] Some show ?thesis
        by (auto simp: same_masses_def)
    qed
  qed
qed

lemma reserveStock_frame:
  assumes "reserveStock items s = (e, s')"
  shows "same_masses s s'" and "shipmentRows s' = shipmentRows s"
    and "p \<notin> productId ` set items \<Longrightarrow> getAvailableStock s' p = getAvailableStock s p"
    and "e \<noteq> None \<Longrightarrow> productRows s' = productRows s"
proof -
  obtain e1 s1 upd1 where loop: "reserve_loop items s [] = (e1, s1, upd1)"
    by (cases "reserve_loop items s []") auto
  from reserve_loop_frame [OF loop]
  have f: "same_masses s s1" "shipmentRows s1 = shipmentRows s" "productRows s1 = productRows s"
    "\<forall>p. p \<notin> productId ` set items \<longrightarrow> catalog s1 p = catalog s p"
    by simp_all
  from assms loop have c: "catalog s' = catalog s1" and sh: "shipmentRows s' = shipmentRows s1"
    by (auto simp: reserveStock_def split: option.splits if_splits)
  from c f(1) show "same_masses s s'" by (simp add: same_masses_def)
  from sh f(2) show "shipmentRows s' = shipmentRows s" by simp
  from c f(4) show "p \<notin> productId ` set items \<Longrightarrow> getAvailableStock s' p = getAvailableStock s p"
    by (simp add: getAvailableStock_def)
  from assms loop f(3) show "e \<noteq> None \<Longrightarrow> productRows s' = productRows s"
    by (auto simp: reserveStock_def split: option.splits if_splits)
qed

lemma reserve_loop_stock:
  "reserve_loop items s upd = (None, s', upd') \<Longrightarrow>
     getAvailableStock s' p = getAvailableStock s p - qty_of p items"
proof (induction items arbitrary: s upd)
  case Nil
  then show ?case by simp
next
  case (Cons it rest)
  from Cons.prems obtain product where
    cat: "catalog s (productId it) = Some product" and enough: "\<not> quantityInStock product < quantity it"
    by (auto split: option.splits if_splits)
  let ?s1 = "s\<lparr>catalog := (catalog s)(productId it \<mapsto>
                    product\<lparr>quantityInStock := quantityInStock product - quantity it\<rparr>)\<rparr>"
  from cat enough Cons.prems
  have "reserve_loop rest ?s1 (upd @ [productId it]) = (None, s', upd')" by simp
  from Cons.IH [OF this] cat show ?case
    by (auto simp: getAvailableStock_def)
qed

lemma reserveStock_stock:
  assumes "reserveStock items s = (None, s')"
  shows "getAvailableStock s' p = getAvailableStock s p - qty_of p items"
proof -
  from assms obtain s1 upd1 where loop: "reserve_loop items s [] = (None, s1, upd1)"
    and c: "catalog s' = catalog s1"
    by (auto simp: reserveStock_def split: prod.splits option.splits if_splits)
  from reserve_loop_stock [OF loop, of p] c show ?thesis
    by (simp add: getAvailableStock_def)
qed

text \<open>The shipped quantity of a product after \<^verbatim>\<open>updateOrderShipment\<close> has merged lines in.\<close>

lemma find_addItem:
  "(case find (\<lambda>it. productId it = p) (addItem items new) of
      Some line \<Rightarrow> quantity line | None \<Rightarrow> 0)
     = (case find (\<lambda>it. productId it = p) items of Some line \<Rightarrow> quantity line | None \<Rightarrow> 0)
       + (if productId new = p then quantity new else 0)"
  by (induction items) auto

lemma find_foldl_addItem:
  "(case find (\<lambda>it. productId it = p) (foldl addItem items lines) of
      Some line \<Rightarrow> quantity line | None \<Rightarrow> 0)
     = (case find (\<lambda>it. productId it = p) items of Some line \<Rightarrow> quantity line | None \<Rightarrow> 0)
       + qty_of p lines"
proof (induction lines arbitrary: items)
  case Nil
  then show ?case by simp
next
  case (Cons line rest)
  from Cons.IH [of "addItem items line"] find_addItem [of p items line]
  show ?case by simp
qed

lemma isOrderFulfilled_remaining: "isOrderFulfilled row = (getRemainingItems row = [])"
  unfolding isOrderFulfilled_def getRemainingItems_def
  by (induction "requestedItems row") (auto simp: Let_def list_all_iff)

lemma updateOrderShipment_effects:
  assumes "updateOrderShipment oid lines s = (e, s')" and "findOrder s oid = Some row"
  shows "e = None" and "catalog s' = catalog s" and "shipmentRows s' = shipmentRows s"
    and "productRows s' = productRows s"
    and "\<forall>other. other \<noteq> oid \<longrightarrow> findOrder s' other = findOrder s other"
    and "\<exists>row'. findOrder s' oid = Some row' \<and> shipped_more row lines row'
           \<and> status row' = (if getRemainingItems row' = [] then FULFILLED else PARTIALLY_FULFILLED)"
proof -
  let ?row1 = "row\<lparr>shippedItems := foldl addItem (shippedItems row) lines,
                     totalShipments := totalShipments row + 1\<rparr>"
  let ?row' = "?row1\<lparr>status := (if isOrderFulfilled ?row1 then FULFILLED else PARTIALLY_FULFILLED)\<rparr>"
  from assms(2) have id: "orderId ?row' = oid" by (simp add: findOrder_orderId)
  from assms have e: "e = None"
    and s': "s' = s\<lparr>orderRows := saveOrderRow ?row' (orderRows s),
                pendingOrders := (if isOrderFulfilled ?row1 then (pendingOrders s)(oid := None)
                                  else (pendingOrders s)(oid \<mapsto> ?row'))\<rparr>"
    by (simp_all add: updateOrderShipment_def Let_def)
  show "e = None" by (rule e)
  from s' show "catalog s' = catalog s" "shipmentRows s' = shipmentRows s"
    "productRows s' = productRows s" by simp_all
  from s' id show "\<forall>other. other \<noteq> oid \<longrightarrow> findOrder s' other = findOrder s other"
    by (simp add: findOrder_def find_saveOrderRow_other)
  from s' id have found: "findOrder s' oid = Some ?row'"
    by (simp add: findOrder_def find_saveOrderRow_same)
  have more: "shipped_more row lines ?row'"
    by (simp add: shipped_more_def shippedQuantity_def find_foldl_addItem)
  have "isOrderFulfilled ?row' = isOrderFulfilled ?row1"
    by (simp add: isOrderFulfilled_def shippedQuantity_def)
  then have "status ?row' = (if getRemainingItems ?row' = [] then FULFILLED else PARTIALLY_FULFILLED)"
    by (simp add: isOrderFulfilled_remaining [symmetric])
  with found more show "\<exists>row'. findOrder s' oid = Some row' \<and> shipped_more row lines row'
           \<and> status row' = (if getRemainingItems row' = [] then FULFILLED else PARTIALLY_FULFILLED)"
    by blast
qed

lemma insertShipments_found:
  "\<forall>row\<in>set rows. findOrder s (s_orderId row) \<noteq> None \<Longrightarrow>
     insertShipments rows s = (None, s\<lparr>shipmentRows := shipmentRows s @ rows\<rparr>)"
  by (auto simp: insertShipments_def find_None_iff split: option.splits)

lemma insertShipments_missing:
  "rows \<noteq> [] \<Longrightarrow> \<forall>row\<in>set rows. findOrder s (s_orderId row) = None \<Longrightarrow>
     fst (insertShipments rows s) \<noteq> None"
  by (cases rows) (auto simp: insertShipments_def split: option.splits)

text \<open>
  A package that \<^verbatim>\<open>shipPackage\<close> commits: the stock of each product falls by the package's
  quantity of it, one shipment row is appended, and the order's row has the package merged
  into its shipped items and a status that tells whether anything remains.
\<close>

lemma shipPackage_effects:
  assumes "shipPackage oid pkg s = (None, s')"
  shows "\<exists>row row'. findOrder s oid = Some row \<and> findOrder s' oid = Some row'
           \<and> shipped_more row pkg row'
           \<and> status row' = (if getRemainingItems row' = [] then FULFILLED else PARTIALLY_FULFILLED)"
    and "\<forall>other. other \<noteq> oid \<longrightarrow> findOrder s' other = findOrder s other"
    and "\<forall>p. getAvailableStock s' p = getAvailableStock s p - qty_of p pkg"
    and "same_masses s s'"
    and "shipmentRows s' = shipmentRows s @ [shipment_row s oid pkg]"
proof -
  from assms obtain s1 s2 where r: "reserveStock pkg s = (None, s1)"
    and ins: "insertShipments [shipment_row s oid pkg] s1 = (None, s2)"
    and u: "updateOrderShipment oid pkg s2 = (None, s')"
    by (auto simp: shipPackage_def shipment_row_def Let_def
             split: if_splits prod.splits option.splits)
  from insertShipments_result [OF ins]
  have s2: "s2 = s1\<lparr>shipmentRows := shipmentRows s1 @ [shipment_row s oid pkg]\<rparr>" by simp
  from ins have "findOrder s1 oid \<noteq> None"
    by (auto simp: insertShipments_def shipment_row_def split: option.splits if_splits)
  with reserveStock_orderRows [OF r] obtain row where row: "findOrder s oid = Some row"
    by (auto simp: findOrder_def)
  with reserveStock_orderRows [OF r] s2 have row2: "findOrder s2 oid = Some row"
    by (simp add: findOrder_def)
  from updateOrderShipment_effects [OF u row2] row
  show "\<exists>row row'. findOrder s oid = Some row \<and> findOrder s' oid = Some row'
           \<and> shipped_more row pkg row'
           \<and> status row' = (if getRemainingItems row' = [] then FULFILLED else PARTIALLY_FULFILLED)"
    by blast
  from updateOrderShipment_effects(5) [OF u row2] reserveStock_orderRows [OF r] s2
  show "\<forall>other. other \<noteq> oid \<longrightarrow> findOrder s' other = findOrder s other"
    by (simp add: findOrder_def)
  from updateOrderShipment_effects(2) [OF u row2] s2 have c: "catalog s' = catalog s1" by simp
  with reserveStock_stock [OF r]
  show "\<forall>p. getAvailableStock s' p = getAvailableStock s p - qty_of p pkg"
    by (simp add: getAvailableStock_def)
  from c reserveStock_frame(1) [OF r] show "same_masses s s'"
    by (simp add: same_masses_def)
  from updateOrderShipment_effects(3) [OF u row2] s2 reserveStock_frame(2) [OF r]
  show "shipmentRows s' = shipmentRows s @ [shipment_row s oid pkg]" by simp
qed

lemma shipPackages_effects:
  assumes "shipPackages oid pkgs s = (None, s')" and "findOrder s oid = Some row"
  shows "\<exists>row'. findOrder s' oid = Some row' \<and> shipped_more row (concat pkgs) row'
           \<and> (pkgs = [] \<longrightarrow> row' = row)
           \<and> (pkgs \<noteq> [] \<longrightarrow>
                status row' = (if getRemainingItems row' = [] then FULFILLED else PARTIALLY_FULFILLED))"
    and "\<forall>other. other \<noteq> oid \<longrightarrow> findOrder s' other = findOrder s other"
    and "\<forall>p. getAvailableStock s' p = getAvailableStock s p - qty_of p (concat pkgs)"
    and "same_masses s s'"
    and "shipmentRows s' = shipmentRows s @ map (shipment_row s oid) pkgs"
  using assms
proof (induction pkgs arbitrary: s row)
  case Nil
  {
    case 1 then show ?case by simp
  next
    case 2 then show ?case by simp
  next
    case 3 then show ?case by simp
  next
    case 4 then show ?case by simp
  next
    case 5 then show ?case by simp
  }
next
  case (Cons pkg rest)
  {
    case 1
    from 1(1) obtain s1 where one: "shipPackage oid pkg s = (None, s1)"
      and more: "shipPackages oid rest s1 = (None, s')"
      by (auto split: prod.splits option.splits)
    from shipPackage_effects(1) [OF one] 1(2) obtain row1 where
      r1: "findOrder s1 oid = Some row1" "shipped_more row pkg row1"
        "status row1 = (if getRemainingItems row1 = [] then FULFILLED else PARTIALLY_FULFILLED)"
      by auto
    from Cons.IH(1) [OF more r1(1)] obtain row' where
      r': "findOrder s' oid = Some row'" "shipped_more row1 (concat rest) row'"
        "rest = [] \<longrightarrow> row' = row1"
        "rest \<noteq> [] \<longrightarrow>
           status row' = (if getRemainingItems row' = [] then FULFILLED else PARTIALLY_FULFILLED)"
      by blast
    from shipped_more_trans [OF r1(2) r'(2)] r'(1,3,4) r1(3) show ?case
      by (cases "rest = []") auto
  next
    case 2
    from 2(1) obtain s1 where one: "shipPackage oid pkg s = (None, s1)"
      and more: "shipPackages oid rest s1 = (None, s')"
      by (auto split: prod.splits option.splits)
    from shipPackage_effects(1) [OF one] obtain row1 where r1: "findOrder s1 oid = Some row1"
      by auto
    from Cons.IH(2) [OF more r1] shipPackage_effects(2) [OF one] show ?case by simp
  next
    case 3
    from 3(1) obtain s1 where one: "shipPackage oid pkg s = (None, s1)"
      and more: "shipPackages oid rest s1 = (None, s')"
      by (auto split: prod.splits option.splits)
    from shipPackage_effects(1) [OF one] obtain row1 where r1: "findOrder s1 oid = Some row1"
      by auto
    from Cons.IH(3) [OF more r1] shipPackage_effects(3) [OF one] show ?case by simp
  next
    case 4
    from 4(1) obtain s1 where one: "shipPackage oid pkg s = (None, s1)"
      and more: "shipPackages oid rest s1 = (None, s')"
      by (auto split: prod.splits option.splits)
    from shipPackage_effects(1) [OF one] obtain row1 where r1: "findOrder s1 oid = Some row1"
      by auto
    from Cons.IH(4) [OF more r1] shipPackage_effects(4) [OF one] show ?case
      by (blast intro: same_masses_trans)
  next
    case 5
    from 5(1) obtain s1 where one: "shipPackage oid pkg s = (None, s1)"
      and more: "shipPackages oid rest s1 = (None, s')"
      by (auto split: prod.splits option.splits)
    from shipPackage_effects(1) [OF one] obtain row1 where r1: "findOrder s1 oid = Some row1"
      by auto
    from shipPackage_effects(4) [OF one]
    have "map (shipment_row s1 oid) rest = map (shipment_row s oid) rest"
      by (simp add: same_masses_shipment_row)
    with Cons.IH(5) [OF more r1] shipPackage_effects(5) [OF one] show ?case by simp
  }
qed

lemma collectBatch_all:
  "\<forall>pkg\<in>set batch. \<not> calculateTotalMass s pkg > MAX_PACKAGE_WEIGHT_G \<Longrightarrow>
     collectBatch s oid batch allBatchItems shipmentData
       = (foldl addItem allBatchItems (concat batch), shipmentData @ map (shipment_row s oid) batch)"
  by (induction batch arbitrary: allBatchItems shipmentData) (simp_all add: shipment_row_def)

lemma addItem_not_Nil [simp]: "addItem items it \<noteq> []"
  by (cases items) auto

lemma foldl_addItem_Nil: "(foldl addItem items lines = []) = (items = [] \<and> lines = [])"
  by (induction lines arbitrary: items) auto

lemma shipped_more_same_quantities:
  "shipped_more row lines row' \<Longrightarrow> \<forall>p. qty_of p lines = qty_of p lines' \<Longrightarrow>
     shipped_more row lines' row'"
  by (simp add: shipped_more_def)

text \<open>
  A batch that \<^verbatim>\<open>batchShipPackages\<close> commits, when none of its packages is over the weight
  limit (none is skipped).
\<close>

lemma processBatch_effects:
  assumes "processBatch oid batch s = (None, s')" and "findOrder s oid = Some row"
    and "\<forall>pkg\<in>set batch. \<not> calculateTotalMass s pkg > MAX_PACKAGE_WEIGHT_G"
  shows "\<exists>row'. findOrder s' oid = Some row' \<and> shipped_more row (concat batch) row'
           \<and> (concat batch = [] \<longrightarrow> row' = row)
           \<and> (concat batch \<noteq> [] \<longrightarrow>
                status row' = (if getRemainingItems row' = [] then FULFILLED else PARTIALLY_FULFILLED))"
    and "\<forall>other. other \<noteq> oid \<longrightarrow> findOrder s' other = findOrder s other"
    and "\<forall>p. getAvailableStock s' p = getAvailableStock s p - qty_of p (concat batch)"
    and "same_masses s s'"
    and "shipmentRows s' = shipmentRows s @ map (shipment_row s oid) batch"
proof -
  let ?items = "foldl addItem [] (concat batch)"
  let ?data = "map (shipment_row s oid) batch"
  have c: "collectBatch s oid batch [] [] = (?items, ?data)"
    using collectBatch_all [OF assms(3), of oid "[]" "[]"] by simp
  have q: "\<forall>p. qty_of p ?items = qty_of p (concat batch)"
    by (simp add: qty_of_foldl_addItem)
  have all: "(\<exists>row'. findOrder s' oid = Some row' \<and> shipped_more row (concat batch) row'
           \<and> (concat batch = [] \<longrightarrow> row' = row)
           \<and> (concat batch \<noteq> [] \<longrightarrow>
                status row' = (if getRemainingItems row' = [] then FULFILLED else PARTIALLY_FULFILLED)))
    \<and> (\<forall>other. other \<noteq> oid \<longrightarrow> findOrder s' other = findOrder s other)
    \<and> (\<forall>p. getAvailableStock s' p = getAvailableStock s p - qty_of p (concat batch))
    \<and> same_masses s s'
    \<and> shipmentRows s' = shipmentRows s @ ?data"
  proof (cases "concat batch = []")
    case True
    then have items: "?items = []" by (simp only: foldl.simps)
    have "insertShipments ?data s = (None, s\<lparr>shipmentRows := shipmentRows s @ ?data\<rparr>)"
      using assms(2) by (auto simp: insertShipments_found shipment_row_def)
    with assms(1) have "s' = s\<lparr>shipmentRows := shipmentRows s @ ?data\<rparr>"
      by (cases "batch = []") (simp_all add: processBatch_def c items)
    with assms(2) show ?thesis
      unfolding True by (simp add: findOrder_def getAvailableStock_def same_masses_def)
  next
    case False
    then have items: "?items \<noteq> []" by (simp add: foldl_addItem_Nil)
    from False have data: "?data \<noteq> []" by auto
    from assms(1) items obtain s1 where r: "reserveStock ?items s = (None, s1)"
      unfolding processBatch_def c
      by (auto split: prod.splits option.splits)
    from reserveStock_orderRows [OF r] assms(2) have row1: "findOrder s1 oid = Some row"
      by (simp add: findOrder_def)
    let ?s2 = "s1\<lparr>shipmentRows := shipmentRows s1 @ ?data\<rparr>"
    from row1 have ins: "insertShipments ?data s1 = (None, ?s2)"
      by (auto simp: insertShipments_found shipment_row_def)
    from assms(1) items data r ins have u: "updateOrderShipment oid ?items ?s2 = (None, s')"
      unfolding processBatch_def c by simp
    from row1 have row2: "findOrder ?s2 oid = Some row" by (simp add: findOrder_def)
    from updateOrderShipment_effects(6) [OF u row2] obtain row' where
      r': "findOrder s' oid = Some row'" "shipped_more row ?items row'"
        "status row' = (if getRemainingItems row' = [] then FULFILLED else PARTIALLY_FULFILLED)"
      by blast
    from shipped_more_same_quantities [OF r'(2) q]
    have more: "shipped_more row (concat batch) row'" .
    from updateOrderShipment_effects(5) [OF u row2] reserveStock_orderRows [OF r]
    have others: "\<forall>other. other \<noteq> oid \<longrightarrow> findOrder s' other = findOrder s other"
      by (simp add: findOrder_def)
    from updateOrderShipment_effects(2) [OF u row2] have cat: "catalog s' = catalog s1" by simp
    with reserveStock_stock [OF r] q
    have stock: "\<forall>p. getAvailableStock s' p = getAvailableStock s p - qty_of p (concat batch)"
      by (simp add: getAvailableStock_def)
    from cat reserveStock_frame(1) [OF r] have masses: "same_masses s s'"
      by (simp add: same_masses_def)
    from updateOrderShipment_effects(3) [OF u row2] reserveStock_frame(2) [OF r]
    have "shipmentRows s' = shipmentRows s @ ?data" by simp
    with r'(1,3) more others stock masses False show ?thesis by blast
  qed
  from all show "\<exists>row'. findOrder s' oid = Some row' \<and> shipped_more row (concat batch) row'
           \<and> (concat batch = [] \<longrightarrow> row' = row)
           \<and> (concat batch \<noteq> [] \<longrightarrow>
                status row' = (if getRemainingItems row' = [] then FULFILLED else PARTIALLY_FULFILLED))"
    by blast
  from all show "\<forall>other. other \<noteq> oid \<longrightarrow> findOrder s' other = findOrder s other" by blast
  from all show "\<forall>p. getAvailableStock s' p = getAvailableStock s p - qty_of p (concat batch)"
    by blast
  from all show "same_masses s s'" by blast
  from all show "shipmentRows s' = shipmentRows s @ map (shipment_row s oid) batch" by blast
qed

lemma drop_batch:
  "drop i pkgs = take BATCH_SIZE (drop i pkgs) @ drop (i + BATCH_SIZE) pkgs"
proof -
  have "take BATCH_SIZE (drop i pkgs) @ drop BATCH_SIZE (drop i pkgs) = drop i pkgs"
    by (rule append_take_drop_id)
  moreover have "drop BATCH_SIZE (drop i pkgs) = drop (i + BATCH_SIZE) pkgs"
    by (simp add: add.commute)
  ultimately show ?thesis by simp
qed

lemma batchLoop_effects:
  assumes "batchLoop oid pkgs i s = (None, s')" and "findOrder s oid = Some row"
    and "\<forall>pkg\<in>set pkgs. \<not> calculateTotalMass s pkg > MAX_PACKAGE_WEIGHT_G"
  shows "(\<exists>row'. findOrder s' oid = Some row' \<and> shipped_more row (concat (drop i pkgs)) row'
           \<and> (concat (drop i pkgs) = [] \<longrightarrow> row' = row)
           \<and> (concat (drop i pkgs) \<noteq> [] \<longrightarrow>
                status row' = (if getRemainingItems row' = [] then FULFILLED else PARTIALLY_FULFILLED)))
    \<and> (\<forall>other. other \<noteq> oid \<longrightarrow> findOrder s' other = findOrder s other)
    \<and> (\<forall>p. getAvailableStock s' p = getAvailableStock s p - qty_of p (concat (drop i pkgs)))
    \<and> same_masses s s'
    \<and> shipmentRows s' = shipmentRows s @ map (shipment_row s oid) (drop i pkgs)"
  using assms
proof (induction oid pkgs i s arbitrary: row rule: batchLoop.induct)
  case (1 oid pkgs i s)
  show ?case
  proof (cases "i < length pkgs")
    case False
    with "1.prems"(1) have "s' = s" by (simp add: batchLoop.simps [of oid pkgs i s])
    with False "1.prems"(2) show ?thesis by simp
  next
    case True
    let ?batch = "take BATCH_SIZE (drop i pkgs)"
    let ?rest = "drop (i + BATCH_SIZE) pkgs"
    have parts: "drop i pkgs = ?batch @ ?rest" by (rule drop_batch)
    from True "1.prems"(1) obtain s1 where one: "processBatch oid ?batch s = (None, s1)"
      and more: "batchLoop oid pkgs (i + BATCH_SIZE) s1 = (None, s')"
      by (auto simp: batchLoop.simps [of oid pkgs i s] split: prod.splits option.splits)
    from "1.prems"(3) have light: "\<forall>pkg\<in>set ?batch. \<not> calculateTotalMass s pkg > MAX_PACKAGE_WEIGHT_G"
      by (auto dest: in_set_takeD in_set_dropD)
    note first = processBatch_effects [OF one "1.prems"(2) light]
    from first(1) obtain row1 where
      r1: "findOrder s1 oid = Some row1" "shipped_more row (concat ?batch) row1"
        "concat ?batch = [] \<longrightarrow> row1 = row"
        "concat ?batch \<noteq> [] \<longrightarrow>
           status row1 = (if getRemainingItems row1 = [] then FULFILLED else PARTIALLY_FULFILLED)"
      by blast
    from first(4) "1.prems"(3)
    have light1: "\<forall>pkg\<in>set pkgs. \<not> calculateTotalMass s1 pkg > MAX_PACKAGE_WEIGHT_G"
      by (simp add: same_masses_total)
    from "1.IH" [OF True one [symmetric] refl more r1(1) light1]
    obtain row' where
      r': "findOrder s' oid = Some row'" "shipped_more row1 (concat ?rest) row'"
        "concat ?rest = [] \<longrightarrow> row' = row1"
        "concat ?rest \<noteq> [] \<longrightarrow>
           status row' = (if getRemainingItems row' = [] then FULFILLED else PARTIALLY_FULFILLED)"
      and others: "\<forall>other. other \<noteq> oid \<longrightarrow> findOrder s' other = findOrder s1 other"
      and stock: "\<forall>p. getAvailableStock s' p = getAvailableStock s1 p - qty_of p (concat ?rest)"
      and masses: "same_masses s1 s'"
      and rows: "shipmentRows s' = shipmentRows s1 @ map (shipment_row s1 oid) ?rest"
      by blast
    have c: "concat (drop i pkgs) = concat ?batch @ concat ?rest"
      by (subst parts) simp
    from shipped_more_trans [OF r1(2) r'(2)]
    have more': "shipped_more row (concat (drop i pkgs)) row'" by (simp add: c)
    have same: "concat (drop i pkgs) = [] \<longrightarrow> row' = row"
      using r1(3) r'(3) unfolding c by simp
    have st: "concat (drop i pkgs) \<noteq> [] \<longrightarrow>
                status row' = (if getRemainingItems row' = [] then FULFILLED else PARTIALLY_FULFILLED)"
      using r1(3,4) r'(3,4) unfolding c by (cases "concat ?rest = []") auto
    from others first(2)
    have others': "\<forall>other. other \<noteq> oid \<longrightarrow> findOrder s' other = findOrder s other" by simp
    from stock first(3)
    have stock': "\<forall>p. getAvailableStock s' p = getAvailableStock s p - qty_of p (concat (drop i pkgs))"
      by (simp add: c)
    from first(4) masses have masses': "same_masses s s'" by (rule same_masses_trans)
    from first(4) have "map (shipment_row s1 oid) ?rest = map (shipment_row s oid) ?rest"
      by (simp add: same_masses_shipment_row)
    with rows first(5)
    have "shipmentRows s' = shipmentRows s @ map (shipment_row s oid) (?batch @ ?rest)" by simp
    then have rows': "shipmentRows s' = shipmentRows s @ map (shipment_row s oid) (drop i pkgs)"
      by (simp only: parts [symmetric])
    from r'(1) more' same st others' stock' masses' rows' show ?thesis by blast
  qed
qed

text \<open>The loop over the batches looks only at the packages from index \<open>i\<close> on.\<close>

lemma batchLoop_drop:
  "batchLoop oid pkgs i s = batchLoop oid (drop i pkgs) 0 s"
proof (induction "length pkgs - i" arbitrary: pkgs i s rule: less_induct)
  case less
  show ?case
  proof (cases "i < length pkgs")
    case False
    then have "drop i pkgs = []" by simp
    with False show ?thesis
      by (simp add: batchLoop.simps [of oid pkgs i s] batchLoop.simps [of oid "[]" 0 s])
  next
    case True
    have step: "\<And>s1. batchLoop oid pkgs (i + BATCH_SIZE) s1
                  = batchLoop oid (drop i pkgs) BATCH_SIZE s1"
    proof -
      fix s1
      from True have m1: "length pkgs - (i + BATCH_SIZE) < length pkgs - i"
        by (simp add: BATCH_SIZE_def)
      from True have m2: "length (drop i pkgs) - BATCH_SIZE < length pkgs - i"
        by (simp add: BATCH_SIZE_def)
      have "batchLoop oid pkgs (i + BATCH_SIZE) s1 = batchLoop oid (drop (i + BATCH_SIZE) pkgs) 0 s1"
        by (rule less.hyps [OF m1])
      also have "drop (i + BATCH_SIZE) pkgs = drop BATCH_SIZE (drop i pkgs)"
        by (simp add: add.commute)
      also have "batchLoop oid (drop BATCH_SIZE (drop i pkgs)) 0 s1
                   = batchLoop oid (drop i pkgs) BATCH_SIZE s1"
        by (rule less.hyps [OF m2, symmetric])
      finally show "batchLoop oid pkgs (i + BATCH_SIZE) s1
                  = batchLoop oid (drop i pkgs) BATCH_SIZE s1" .
    qed
    from True show ?thesis
      by (auto simp: batchLoop.simps [of oid pkgs i s] batchLoop.simps [of oid "drop i pkgs" 0 s] step
               split: prod.splits option.splits)
  qed
qed

lemma batchLoop_first:
  "pkgs \<noteq> [] \<Longrightarrow>
     batchLoop oid pkgs 0 s
       = (case processBatch oid (take BATCH_SIZE pkgs) s of
            (Some e, s') \<Rightarrow> (Some e, s')
          | (None, s') \<Rightarrow> batchLoop oid (drop BATCH_SIZE pkgs) 0 s')"
  by (auto simp: batchLoop.simps [of oid pkgs 0 s] batchLoop_drop [of oid pkgs BATCH_SIZE]
           split: prod.splits option.splits)

lemma batchLoop_prefix:
  "length before = k * BATCH_SIZE \<Longrightarrow> batchLoop oid before 0 s = (None, s1) \<Longrightarrow>
     batchLoop oid (before @ rest) 0 s = batchLoop oid rest 0 s1"
proof (induction k arbitrary: before s)
  case 0
  then show ?case by (simp add: batchLoop.simps [of oid "[]" 0 s])
next
  case (Suc k)
  from Suc.prems(1) have ne: "before \<noteq> []" by (auto simp: BATCH_SIZE_def)
  from Suc.prems(1) have len: "length (drop BATCH_SIZE before) = k * BATCH_SIZE" by simp
  from Suc.prems(1) have t: "take BATCH_SIZE (before @ rest) = take BATCH_SIZE before"
    and d: "drop BATCH_SIZE (before @ rest) = drop BATCH_SIZE before @ rest"
    by simp_all
  from Suc.prems(2) ne obtain s' where
    one: "processBatch oid (take BATCH_SIZE before) s = (None, s')"
    and more: "batchLoop oid (drop BATCH_SIZE before) 0 s' = (None, s1)"
    by (auto simp: batchLoop_first split: prod.splits option.splits)
  from ne have "before @ rest \<noteq> []" by simp
  from batchLoop_first [OF this, of oid s]
  have "batchLoop oid (before @ rest) 0 s
      = batchLoop oid (drop BATCH_SIZE before @ rest) 0 s'"
    unfolding t d one by simp
  with Suc.IH [OF len more] show ?case by simp
qed

lemma packItem_nonempty:
  assumes "packItem s maxWeightG pid unitWeight remainingQuantity shipments = Some result"
    and "\<forall>shipment\<in>set shipments. shipment \<noteq> []"
  shows "\<forall>shipment\<in>set result. shipment \<noteq> []"
  using assms(2-)
proof (induction rule: packItem.raw_induct [OF _ assms(1)])
  case (1 loop s maxWeightG pid unitWeight remainingQuantity shipments result)
  note IH = "1.IH" and body = "1.hyps"
  have inv: "\<forall>shipment\<in>set shipments. shipment \<noteq> []" using "1.prems" by simp
  show ?case
  proof (cases "0 < remainingQuantity \<and> floor_quotient maxWeightG unitWeight \<noteq> Finite 0")
    case False
    with body inv show ?thesis by (auto split: if_splits)
  next
    case True
    show ?thesis
    proof (cases "addToExisting s maxWeightG pid unitWeight remainingQuantity shipments")
      case (Some added)
      obtain shipments' n where added: "added = (shipments', n)" by (cases added)
      from Some added True body
      have rec: "loop s maxWeightG pid unitWeight (remainingQuantity - n) shipments' = Some result"
        by simp
      from addToExisting_Some [OF Some [unfolded added]] obtain before shipment after where
        split: "shipments = before @ shipment # after"
          "shipments' = before @ addItem shipment (Item pid n) # after"
        by blast
      with inv have "\<forall>shipment\<in>set shipments'. shipment \<noteq> []" by auto
      from IH [OF rec this] show ?thesis .
    next
      case None
      with True body obtain n where
        rec: "loop s maxWeightG pid unitWeight (remainingQuantity - n)
                    (shipments @ [[Item pid n]]) = Some result"
        by (auto split: option.splits)
      from inv have "\<forall>shipment\<in>set (shipments @ [[Item pid n]]). shipment \<noteq> []" by auto
      from IH [OF rec this] show ?thesis .
    qed
  qed
qed

lemma packItems_nonempty:
  "packItems s maxWeightG entries shipments = Some result \<Longrightarrow>
     \<forall>shipment\<in>set shipments. shipment \<noteq> [] \<Longrightarrow> \<forall>shipment\<in>set result. shipment \<noteq> []"
proof (induction entries arbitrary: shipments)
  case Nil
  then show ?case by simp
next
  case (Cons entry rest)
  obtain it unitWeight where entry: "entry = (it, unitWeight)" by (cases entry)
  from Cons.prems(1) entry obtain shipments' where
    one: "packItem s maxWeightG (productId it) unitWeight (quantity it) shipments = Some shipments'"
    and more: "packItems s maxWeightG rest shipments' = Some result"
    by (auto split: option.splits)
  from Cons.IH [OF more packItem_nonempty [OF one Cons.prems(2)]] show ?case .
qed

text \<open>
  The packages that \<open>packShipment\<close> returns under the limit of \<^verbatim>\<open>FulfillmentService\<close>: none is
  empty and none is over the weight that \<^verbatim>\<open>shipPackage\<close> and the batch loop check again.
\<close>

lemma packShipment_packages:
  assumes "packShipment s items MAX_PACKAGE_WEIGHT_G = Some pkgs"
  shows "\<forall>pkg\<in>set pkgs. pkg \<noteq> []"
    and "\<forall>pkg\<in>set pkgs. \<not> calculateTotalMass s pkg > MAX_PACKAGE_WEIGHT_G"
proof -
  from assms have run: "packItems s MAX_PACKAGE_WEIGHT_G (itemsWithWeight s items) [] = Some pkgs"
    by (simp add: packShipment_def)
  from packItems_nonempty [OF run] show "\<forall>pkg\<in>set pkgs. pkg \<noteq> []" by simp
  have W: "0 < MAX_PACKAGE_WEIGHT_G" by (simp add: MAX_PACKAGE_WEIGHT_G_def)
  from packItems_weights [OF run W known_entries_itemsWithWeight]
  have "\<forall>pkg\<in>set pkgs. calculateShipmentWeight s pkg \<le> MAX_PACKAGE_WEIGHT_G" by simp
  then show "\<forall>pkg\<in>set pkgs. \<not> calculateTotalMass s pkg > MAX_PACKAGE_WEIGHT_G"
    by (simp add: calculateTotalMass_sum calculateShipmentWeight_sum not_less)
qed

text \<open>
  What \<^verbatim>\<open>getRemainingItems\<close> holds of a product: for each requested line of the product, what
  the line asks beyond the shipped quantity of the product.
\<close>

lemma getRemainingItems_quantity:
  "qty_of p (getRemainingItems row)
     = (\<Sum>line\<leftarrow>filter (\<lambda>line. productId line = p) (requestedItems row).
          max 0 (quantity line - shippedQuantity row p))"
proof -
  have "\<And>shipped. qty_of p (concat (map (\<lambda>requestedItem.
            let remainingQuantity = quantity requestedItem - shipped (productId requestedItem)
            in if remainingQuantity > 0 then [Item (productId requestedItem) remainingQuantity] else [])
           requested))
       = (\<Sum>line\<leftarrow>filter (\<lambda>line. productId line = p) requested. max 0 (quantity line - shipped p))"
    for requested :: "item list"
    by (induction requested) (auto simp: Let_def)
  then show ?thesis by (simp add: getRemainingItems_def)
qed

lemma getRemainingItems_listed_once:
  assumes "filter (\<lambda>line. productId line = p) (requestedItems row) = [line]"
  shows "qty_of p (getRemainingItems row) = max 0 (requestedQuantity row p - shippedQuantity row p)"
proof -
  have "qty_of p items = (\<Sum>line\<leftarrow>filter (\<lambda>line. productId line = p) items. quantity line)"
    for items
    by (induction items) auto
  with assms have "requestedQuantity row p = quantity line"
    by (simp add: requestedQuantity_def)
  with assms show ?thesis by (simp add: getRemainingItems_quantity)
qed

lemma shipPackages_append:
  "shipPackages oid before s = (None, s1) \<Longrightarrow>
     shipPackages oid (before @ rest) s = shipPackages oid rest s1"
  by (induction before arbitrary: s) (auto split: prod.splits option.splits)

lemma packShipment_Nil: "packShipment s [] maxWeightG = Some []"
  by (simp add: packShipment_def itemsWithWeight_def)

text \<open>
  C4 as stated fails: the packages of order 3 are two of one unit of each product, one of two
  units of product 0 and one of one unit of product 0.  The first is shipped; reserving the
  second fails, since the only unit of product 1 is gone; the error leaves the loop, and the
  two later packages are never tried, although four units of product 0 are in stock and the
  third package could still be shipped.  Nor does the order carry what is unshipped as its
  remainder: of the two units of product 1 that it requests one is shipped, and its remaining
  items hold none of product 1.
\<close>

theorem later_packages_not_attempted:
  "packShipment (snd (enqueueOrder 3 [(1, 1), (1, 1), (0, 5)] 30 two_stock_system))
       [Item 1 1, Item 1 1, Item 0 5] 1800
     = Some [[Item 1 1, Item 0 1], [Item 1 1, Item 0 1], [Item 0 2], [Item 0 1]]
   \<and> map_option fst (processOrder 3 [(1, 1), (1, 1), (0, 5)] 30 two_stock_system)
       = Some (Some (InsufficientStock 1 0 1))
   \<and> orderRows aborted_system
       = [\<lparr>orderId = 3, requestedItems = [Item 1 1, Item 1 1, Item 0 5],
           shippedItems = [Item 1 1, Item 0 1], status = PARTIALLY_FULFILLED,
           totalShipments = 1, createdAt = 30\<rparr>]
   \<and> shipmentRows aborted_system
       = [\<lparr>s_orderId = 3, s_shippedItems = [Item 1 1, Item 0 1], totalMassG = 1700\<rparr>]
   \<and> getAvailableStock aborted_system 0 = 4
   \<and> fst (shipPackage 3 [Item 0 2] aborted_system) = None
   \<and> map (\<lambda>row. (requestedQuantity row 1, shippedQuantity row 1, getRemainingItems row))
        (orderRows aborted_system) = [(2, 1, [Item 0 4])]"
  by code_simp

text \<open>
  C4 as amended.  The packages of a pass are committed one at a time, or in batches of 50
  when there are more than 100.  When the packages before a package (before a batch) are
  committed and \<open>reserveStock\<close> fails on that package (on the merged lines of that batch),
  the pass ends there and returns that error.  The orders, the shipments and the stored
  products are as the committed packages left them: each committed package has its shipment
  row and its quantities are off the stock and in the order's shipped quantities, no other
  order has changed, and nothing of the failing package, of the rest of its batch or of a
  later package is shipped.  The order keeps its requested items; once a package is
  committed it is \<open>FULFILLED\<close> if its remaining items are empty and \<open>PARTIALLY_FULFILLED\<close>
  otherwise, and for every product that it lists once the remaining items hold what is
  requested and not shipped.
\<close>

theorem reserve_failure_ends_pass:
  assumes pack: "packShipment s (getShippableItems s (getRemainingItems order)) MAX_PACKAGE_WEIGHT_G
             = Some (before @ failing @ later)"
    and row: "findOrder s (orderId order) = Some row"
    and fail: "(length (before @ failing @ later) \<le> 100
          \<and> shipPackages (orderId order) before s = (None, s1)
          \<and> (\<exists>pkg. failing = [pkg] \<and> reserveStock pkg s1 = (Some e, s2)))
       \<or> (100 < length (before @ failing @ later)
          \<and> batchShipPackages (orderId order) before s = (None, s1)
          \<and> BATCH_SIZE dvd length before
          \<and> failing \<noteq> [] \<and> failing = take BATCH_SIZE (failing @ later)
          \<and> reserveStock (foldl addItem [] (concat failing)) s1 = (Some e, s2))"
  shows "attemptFulfillment order s = Some (Some e, s2)
    \<and> orderRows s2 = orderRows s1 \<and> shipmentRows s2 = shipmentRows s1
    \<and> productRows s2 = productRows s1
    \<and> shipmentRows s2
        = shipmentRows s
          @ map (\<lambda>pkg. \<lparr>s_orderId = orderId order, s_shippedItems = pkg,
                         totalMassG = calculateTotalMass s pkg\<rparr>) before
    \<and> (\<forall>p. getAvailableStock s1 p = getAvailableStock s p - qty_of p (concat before))
    \<and> (\<forall>other. other \<noteq> orderId order \<longrightarrow> findOrder s2 other = findOrder s other)
    \<and> (\<exists>row2. findOrder s2 (orderId order) = Some row2
          \<and> requestedItems row2 = requestedItems row
          \<and> (\<forall>p. shippedQuantity row2 p = shippedQuantity row p + qty_of p (concat before))
          \<and> (before = [] \<longrightarrow> row2 = row)
          \<and> (before \<noteq> [] \<longrightarrow>
                status row2 = (if getRemainingItems row2 = [] then FULFILLED else PARTIALLY_FULFILLED))
          \<and> (\<forall>p line. filter (\<lambda>l. productId l = p) (requestedItems row) = [line] \<longrightarrow>
                qty_of p (getRemainingItems row2)
                  = max 0 (requestedQuantity row2 p - shippedQuantity row2 p)))"
proof -
  let ?oid = "orderId order"
  let ?pkgs = "before @ failing @ later"
  note packed = packShipment_packages [OF pack]
  from packed(1) have nonempty: "\<forall>pkg\<in>set before. pkg \<noteq> []" "\<forall>pkg\<in>set failing. pkg \<noteq> []"
    by simp_all
  from packed(2) have light: "\<forall>pkg\<in>set before. \<not> calculateTotalMass s pkg > MAX_PACKAGE_WEIGHT_G"
    "\<forall>pkg\<in>set failing. \<not> calculateTotalMass s pkg > MAX_PACKAGE_WEIGHT_G"
    by simp_all
  from nonempty(1) have flat: "(concat before = []) = (before = [])" by (cases before) auto
  have "(\<exists>items. reserveStock items s1 = (Some e, s2))
    \<and> (if length ?pkgs > 100 then batchShipPackages ?oid ?pkgs s else shipPackages ?oid ?pkgs s)
         = (Some e, s2)
    \<and> (\<exists>row1. findOrder s1 ?oid = Some row1 \<and> shipped_more row (concat before) row1
           \<and> (before = [] \<longrightarrow> row1 = row)
           \<and> (before \<noteq> [] \<longrightarrow>
                status row1 = (if getRemainingItems row1 = [] then FULFILLED else PARTIALLY_FULFILLED)))
    \<and> (\<forall>other. other \<noteq> ?oid \<longrightarrow> findOrder s1 other = findOrder s other)
    \<and> (\<forall>p. getAvailableStock s1 p = getAvailableStock s p - qty_of p (concat before))
    \<and> shipmentRows s1 = shipmentRows s @ map (shipment_row s ?oid) before"
  proof (cases "length ?pkgs > 100")
    case False
    with fail obtain pkg where committed: "shipPackages ?oid before s = (None, s1)"
      and one: "failing = [pkg]" and r: "reserveStock pkg s1 = (Some e, s2)"
      by auto
    note eff = shipPackages_effects [OF committed row]
    from light(2) one eff(4) have "\<not> calculateTotalMass s1 pkg > MAX_PACKAGE_WEIGHT_G"
      by (simp add: same_masses_total)
    with r have "shipPackage ?oid pkg s1 = (Some e, s2)" by (simp add: shipPackage_def)
    then have "shipPackages ?oid (failing @ later) s1 = (Some e, s2)" by (simp add: one)
    with shipPackages_append [OF committed, of "failing @ later"]
    have "shipPackages ?oid ?pkgs s = (Some e, s2)" by simp
    with False r eff(1,2,3,5) show ?thesis by auto
  next
    case True
    with fail have committed: "batchLoop ?oid before 0 s = (None, s1)"
      and whole: "BATCH_SIZE dvd length before"
      and ne: "failing \<noteq> []" and batch: "failing = take BATCH_SIZE (failing @ later)"
      and r: "reserveStock (foldl addItem [] (concat failing)) s1 = (Some e, s2)"
      by (auto simp: batchShipPackages_def)
    from whole obtain k where k: "length before = k * BATCH_SIZE"
      by (auto simp: dvd_def mult.commute)
    from batchLoop_effects [OF committed row light(1)]
    have eff: "\<exists>row1. findOrder s1 ?oid = Some row1 \<and> shipped_more row (concat before) row1
           \<and> (concat before = [] \<longrightarrow> row1 = row)
           \<and> (concat before \<noteq> [] \<longrightarrow>
                status row1 = (if getRemainingItems row1 = [] then FULFILLED else PARTIALLY_FULFILLED))"
      "\<forall>other. other \<noteq> ?oid \<longrightarrow> findOrder s1 other = findOrder s other"
      "\<forall>p. getAvailableStock s1 p = getAvailableStock s p - qty_of p (concat before)"
      "same_masses s s1"
      "shipmentRows s1 = shipmentRows s @ map (shipment_row s ?oid) before"
      by simp_all
    from light(2) eff(4)
    have light1: "\<forall>pkg\<in>set failing. \<not> calculateTotalMass s1 pkg > MAX_PACKAGE_WEIGHT_G"
      by (simp add: same_masses_total)
    from ne nonempty(2) have "concat failing \<noteq> []" by (cases failing) auto
    then have items: "foldl addItem [] (concat failing) \<noteq> []" by (simp add: foldl_addItem_Nil)
    have "processBatch ?oid failing s1 = (Some e, s2)"
      unfolding processBatch_def collectBatch_all [OF light1] using items r by simp
    moreover from ne have "failing @ later \<noteq> []" by simp
    ultimately have "batchLoop ?oid (failing @ later) 0 s1 = (Some e, s2)"
      using batch by (simp add: batchLoop_first)
    with batchLoop_prefix [OF k committed, of "failing @ later"]
    have "batchShipPackages ?oid ?pkgs s = (Some e, s2)"
      by (simp add: batchShipPackages_def)
    with True r eff(1,2,3,5) flat show ?thesis by auto
  qed
  then obtain items row1 where r: "reserveStock items s1 = (Some e, s2)"
    and run: "(if length ?pkgs > 100 then batchShipPackages ?oid ?pkgs s
               else shipPackages ?oid ?pkgs s) = (Some e, s2)"
    and r1: "findOrder s1 ?oid = Some row1" "shipped_more row (concat before) row1"
      "before = [] \<longrightarrow> row1 = row"
      "before \<noteq> [] \<longrightarrow>
         status row1 = (if getRemainingItems row1 = [] then FULFILLED else PARTIALLY_FULFILLED)"
    and others: "\<forall>other. other \<noteq> ?oid \<longrightarrow> findOrder s1 other = findOrder s other"
    and stock: "\<forall>p. getAvailableStock s1 p = getAvailableStock s p - qty_of p (concat before)"
    and rows: "shipmentRows s1 = shipmentRows s @ map (shipment_row s ?oid) before"
    by blast
  from fail have "failing \<noteq> []" by auto
  with pack have shippable: "getShippableItems s (getRemainingItems order) \<noteq> []"
    by (auto simp: packShipment_Nil)
  then have "getRemainingItems order \<noteq> []"
    by (auto simp: getShippableItems_def)
  with shippable pack run have attempt: "attemptFulfillment order s = Some (Some e, s2)"
    by (simp add: attemptFulfillment_def Let_def)
  from reserveStock_orderRows [OF r] have orders: "orderRows s2 = orderRows s1" .
  from reserveStock_frame(2) [OF r] have shipments: "shipmentRows s2 = shipmentRows s1" .
  from reserveStock_frame(4) [OF r] have products: "productRows s2 = productRows s1" by simp
  from orders have find2: "\<And>oid. findOrder s2 oid = findOrder s1 oid" by (simp add: findOrder_def)
  from r1(2) have req: "requestedItems row1 = requestedItems row"
    and shipped: "\<forall>p. shippedQuantity row1 p = shippedQuantity row p + qty_of p (concat before)"
    by (simp_all add: shipped_more_def)
  have remainder: "\<forall>p line. filter (\<lambda>l. productId l = p) (requestedItems row) = [line] \<longrightarrow>
                qty_of p (getRemainingItems row1)
                  = max 0 (requestedQuantity row1 p - shippedQuantity row1 p)"
    using req by (auto intro: getRemainingItems_listed_once)
  from find2 r1(1) have f2: "findOrder s2 ?oid = Some row1" by simp
  have "\<exists>row2. findOrder s2 ?oid = Some row2
          \<and> requestedItems row2 = requestedItems row
          \<and> (\<forall>p. shippedQuantity row2 p = shippedQuantity row p + qty_of p (concat before))
          \<and> (before = [] \<longrightarrow> row2 = row)
          \<and> (before \<noteq> [] \<longrightarrow>
                status row2 = (if getRemainingItems row2 = [] then FULFILLED else PARTIALLY_FULFILLED))
          \<and> (\<forall>p line. filter (\<lambda>l. productId l = p) (requestedItems row) = [line] \<longrightarrow>
                qty_of p (getRemainingItems row2)
                  = max 0 (requestedQuantity row2 p - shippedQuantity row2 p))"
    using f2 r1(3,4) req shipped remainder by (intro exI [of _ row1]) blast
  moreover from rows shipments have "shipmentRows s2
        = shipmentRows s
          @ map (\<lambda>pkg. \<lparr>s_orderId = orderId order, s_shippedItems = pkg,
                         totalMassG = calculateTotalMass s pkg\<rparr>) before"
    by (simp add: shipment_row_def)
  moreover from others find2
  have "\<forall>other. other \<noteq> ?oid \<longrightarrow> findOrder s2 other = findOrder s other" by simp
  ultimately show ?thesis using attempt orders shipments products stock by blast
qed

theorem reserve_failure_ends_pass_witness:
  "attemptFulfillment (fst (enqueueOrder 3 [(1, 1), (1, 1), (0, 5)] 30 two_stock_system))
       duplicate_order_system
     = Some (Some (InsufficientStock 1 0 1),
             snd (reserveStock [Item 1 1, Item 0 1] first_shipped_system))
   \<and> orderRows (snd (reserveStock [Item 1 1, Item 0 1] first_shipped_system))
       = orderRows first_shipped_system
   \<and> (\<exists>row2. findOrder (snd (reserveStock [Item 1 1, Item 0 1] first_shipped_system)) 3 = Some row2
          \<and> requestedItems row2 = [Item 1 1, Item 1 1, Item 0 5]
          \<and> shippedQuantity row2 0 = 1
          \<and> qty_of 0 (getRemainingItems row2) = 4)
   \<and> attemptFulfillment (fst (enqueueOrder 4 [(1, 101), (1, 1)] 40 bulk_system)) double_bulk_system
     = Some (Some (InsufficientStock 1 1 2), snd (reserveStock [Item 1 2] two_batches_system))
   \<and> (\<exists>row2. findOrder (snd (reserveStock [Item 1 2] two_batches_system)) 4 = Some row2
          \<and> shippedQuantity row2 1 = 100)
   \<and> getAvailableStock two_batches_system 1 = 1"
proof -
  let ?order = "fst (enqueueOrder 3 [(1, 1), (1, 1), (0, 5)] 30 two_stock_system)"
  let ?s2 = "snd (reserveStock [Item 1 1, Item 0 1] first_shipped_system)"
  have id: "orderId ?order = 3" by code_simp
  have pack: "packShipment duplicate_order_system
        (getShippableItems duplicate_order_system (getRemainingItems ?order)) MAX_PACKAGE_WEIGHT_G
      = Some ([[Item 1 1, Item 0 1]] @ [[Item 1 1, Item 0 1]] @ [[Item 0 2], [Item 0 1]])"
    by code_simp
  have row: "findOrder duplicate_order_system (orderId ?order)
      = Some \<lparr>orderId = 3, requestedItems = [Item 1 1, Item 1 1, Item 0 5], shippedItems = [],
               status = PENDING, totalShipments = 0, createdAt = 30\<rparr>"
    by code_simp
  have "fst (shipPackages 3 [[Item 1 1, Item 0 1]] duplicate_order_system) = None"
    by code_simp
  then have first: "shipPackages (orderId ?order) [[Item 1 1, Item 0 1]] duplicate_order_system
      = (None, first_shipped_system)"
    unfolding id first_shipped_system_def by (metis prod.collapse)
  have "fst (reserveStock [Item 1 1, Item 0 1] first_shipped_system) = Some (InsufficientStock 1 0 1)"
    by code_simp
  then have fail: "reserveStock [Item 1 1, Item 0 1] first_shipped_system
      = (Some (InsufficientStock 1 0 1), ?s2)"
    by (metis prod.collapse)
  have one: "length ([[Item 1 1, Item 0 1]] @ [[Item 1 1, Item 0 1]] @ [[Item 0 2], [Item 0 1]]) \<le> 100
        \<and> shipPackages (orderId ?order) [[Item 1 1, Item 0 1]] duplicate_order_system
            = (None, first_shipped_system)
        \<and> (\<exists>pkg. [[Item 1 1, Item 0 1]] = [pkg]
              \<and> reserveStock pkg first_shipped_system = (Some (InsufficientStock 1 0 1), ?s2))"
    using first fail by simp
  note small = reserve_failure_ends_pass [OF pack row disjI1 [OF one]]
  from small obtain row2 where r2: "findOrder ?s2 (orderId ?order) = Some row2"
    "requestedItems row2 = [Item 1 1, Item 1 1, Item 0 5]"
    "\<forall>p. shippedQuantity row2 p
        = shippedQuantity \<lparr>orderId = 3, requestedItems = [Item 1 1, Item 1 1, Item 0 5],
              shippedItems = [], status = PENDING, totalShipments = 0, createdAt = 30\<rparr> p
          + qty_of p (concat [[Item 1 1, Item 0 1]])"
    "\<forall>p line. filter (\<lambda>l. productId l = p) [Item 1 1, Item 1 1, Item 0 5] = [line] \<longrightarrow>
        qty_of p (getRemainingItems row2) = max 0 (requestedQuantity row2 p - shippedQuantity row2 p)"
    by auto
  from r2(3) have sq: "shippedQuantity row2 0 = 1" by (simp add: shippedQuantity_def)
  from r2(4) have "qty_of 0 (getRemainingItems row2)
      = max 0 (requestedQuantity row2 0 - shippedQuantity row2 0)" by simp
  with sq r2(2) have rq: "qty_of 0 (getRemainingItems row2) = 4"
    by (simp add: requestedQuantity_def)
  from r2(1,2) sq rq id have part1: "\<exists>row2. findOrder ?s2 3 = Some row2
          \<and> requestedItems row2 = [Item 1 1, Item 1 1, Item 0 5]
          \<and> shippedQuantity row2 0 = 1
          \<and> qty_of 0 (getRemainingItems row2) = 4"
    by auto
  \<comment> \<open>the pass in batches\<close>
  let ?bulk = "fst (enqueueOrder 4 [(1, 101), (1, 1)] 40 bulk_system)"
  let ?t2 = "snd (reserveStock [Item 1 2] two_batches_system)"
  have bid: "orderId ?bulk = 4" by code_simp
  have bpack: "packShipment double_bulk_system
        (getShippableItems double_bulk_system (getRemainingItems ?bulk)) MAX_PACKAGE_WEIGHT_G
      = Some (replicate 100 [Item 1 1] @ replicate 2 [Item 1 1] @ [])"
    by code_simp
  have brow: "findOrder double_bulk_system (orderId ?bulk)
      = Some \<lparr>orderId = 4, requestedItems = [Item 1 101, Item 1 1], shippedItems = [],
               status = PENDING, totalShipments = 0, createdAt = 40\<rparr>"
    by code_simp
  have "fst (batchShipPackages 4 (replicate 100 [Item 1 1]) double_bulk_system) = None"
    by code_simp
  then have bfirst: "batchShipPackages (orderId ?bulk) (replicate 100 [Item 1 1]) double_bulk_system
      = (None, two_batches_system)"
    unfolding bid two_batches_system_def by (metis prod.collapse)
  have stock: "getAvailableStock two_batches_system 1 = 1" by code_simp
  have "fst (reserveStock [Item 1 2] two_batches_system) = Some (InsufficientStock 1 1 2)"
    by code_simp
  then have bfail: "reserveStock (foldl addItem [] (concat (replicate 2 [Item 1 1]))) two_batches_system
      = (Some (InsufficientStock 1 1 2), ?t2)"
    by (simp add: numeral_2_eq_2) (metis prod.collapse)
  have two: "100 < length (replicate 100 [Item 1 1] @ replicate 2 [Item 1 1] @ [])
        \<and> batchShipPackages (orderId ?bulk) (replicate 100 [Item 1 1]) double_bulk_system
            = (None, two_batches_system)
        \<and> BATCH_SIZE dvd length (replicate 100 [Item (1::int) 1])
        \<and> replicate 2 [Item 1 1] \<noteq> []
        \<and> replicate 2 [Item 1 1] = take BATCH_SIZE (replicate 2 [Item 1 1] @ [])
        \<and> reserveStock (foldl addItem [] (concat (replicate 2 [Item 1 1]))) two_batches_system
            = (Some (InsufficientStock 1 1 2), ?t2)"
    using bfirst bfail by (simp add: BATCH_SIZE_def)
  note large = reserve_failure_ends_pass [OF bpack brow disjI2 [OF two]]
  from large obtain brow2 where b2: "findOrder ?t2 (orderId ?bulk) = Some brow2"
    "\<forall>p. shippedQuantity brow2 p
        = shippedQuantity \<lparr>orderId = 4, requestedItems = [Item 1 101, Item 1 1], shippedItems = [],
               status = PENDING, totalShipments = 0, createdAt = 40\<rparr> p
          + qty_of p (concat (replicate 100 [Item 1 1]))"
    by auto
  have "qty_of 1 (concat (replicate n [Item 1 1])) = int n" for n
    by (induction n) simp_all
  from this [of 100] b2(2) have "shippedQuantity brow2 1 = 100"
    by (simp add: shippedQuantity_def)
  with b2(1) bid have part2: "\<exists>row2. findOrder ?t2 4 = Some row2 \<and> shippedQuantity row2 1 = 100"
    by auto
  from small large part1 part2 stock show ?thesis by simp
qed

section \<open>Properties: pending orders are served oldest first\<close>

text \<open>
  When \<^verbatim>\<open>reserveStock\<close> succeeds: every line asks for a positive quantity, and of each
  product the lines together ask no more than is in stock.
\<close>

lemma qty_of_line_le:
  "\<forall>line\<in>set items. 0 \<le> quantity line \<Longrightarrow> it \<in> set items \<Longrightarrow>
     quantity it \<le> qty_of (productId it) items"
proof (induction items)
  case Nil
  then show ?case by simp
next
  case (Cons x xs)
  from Cons.prems(1) have xs: "\<forall>line\<in>set xs. 0 \<le> quantity line" and x: "0 \<le> quantity x"
    by simp_all
  show ?case
  proof (cases "it = x")
    case True
    with qty_of_nonneg [OF xs, of "productId x"] show ?thesis by simp
  next
    case False
    with Cons.prems(2) have "it \<in> set xs" by simp
    from Cons.IH [OF xs this] x show ?thesis by simp
  qed
qed

lemma reserve_loop_succeeds:
  "\<forall>line\<in>set items. 0 < quantity line \<Longrightarrow>
     \<forall>line\<in>set items. qty_of (productId line) items \<le> getAvailableStock s (productId line) \<Longrightarrow>
     \<exists>s' upd'. reserve_loop items s upd = (None, s', upd')"
proof (induction items arbitrary: s upd)
  case Nil
  then show ?case by simp
next
  case (Cons it rest)
  from Cons.prems(1) have pos: "0 < quantity it" and rest: "\<forall>line\<in>set rest. 0 < quantity line"
    by simp_all
  from rest have nonneg: "\<forall>line\<in>set rest. 0 \<le> quantity line" by fastforce
  from Cons.prems(2) have "qty_of (productId it) (it # rest) \<le> getAvailableStock s (productId it)"
    by simp
  with qty_of_nonneg [OF nonneg, of "productId it"]
  have enough: "quantity it \<le> getAvailableStock s (productId it)" by simp
  with pos obtain product where cat: "catalog s (productId it) = Some product"
    and stock: "quantity it \<le> quantityInStock product"
    by (cases "catalog s (productId it)") (auto simp: getAvailableStock_def)
  let ?s1 = "s\<lparr>catalog := (catalog s)(productId it \<mapsto>
                    product\<lparr>quantityInStock := quantityInStock product - quantity it\<rparr>)\<rparr>"
  have "\<forall>line\<in>set rest. qty_of (productId line) rest \<le> getAvailableStock ?s1 (productId line)"
  proof
    fix line
    assume mem: "line \<in> set rest"
    with Cons.prems(2)
    have "qty_of (productId line) (it # rest) \<le> getAvailableStock s (productId line)" by simp
    with cat show "qty_of (productId line) rest \<le> getAvailableStock ?s1 (productId line)"
      by (auto simp: getAvailableStock_def)
  qed
  from Cons.IH [OF rest this, of "upd @ [productId it]"] cat stock show ?case by simp
qed

lemma reserveStock_succeeds:
  assumes "\<forall>line\<in>set items. 0 < quantity line"
    and "\<forall>line\<in>set items. qty_of (productId line) items \<le> getAvailableStock s (productId line)"
  shows "\<exists>s'. reserveStock items s = (None, s')"
proof -
  from reserve_loop_succeeds [OF assms, of "[]"] obtain s1 upd1 where
    "reserve_loop items s [] = (None, s1, upd1)" by blast
  then show ?thesis by (simp add: reserveStock_def)
qed

lemma shipPackage_succeeds:
  assumes "findOrder s oid = Some row"
    and "\<not> calculateTotalMass s pkg > MAX_PACKAGE_WEIGHT_G"
    and "\<forall>line\<in>set pkg. 0 < quantity line"
    and "\<forall>line\<in>set pkg. qty_of (productId line) pkg \<le> getAvailableStock s (productId line)"
  shows "\<exists>s'. shipPackage oid pkg s = (None, s')"
proof -
  from reserveStock_succeeds [OF assms(3,4)] obtain s1 where r: "reserveStock pkg s = (None, s1)"
    by blast
  from reserveStock_orderRows [OF r] assms(1) have row1: "findOrder s1 oid = Some row"
    by (simp add: findOrder_def)
  let ?s2 = "s1\<lparr>shipmentRows := shipmentRows s1 @ [shipment_row s oid pkg]\<rparr>"
  from row1 have ins: "insertShipments [shipment_row s oid pkg] s1 = (None, ?s2)"
    by (simp add: insertShipments_found shipment_row_def)
  from row1 have row2: "findOrder ?s2 oid = Some row" by (simp add: findOrder_def)
  obtain e s' where u: "updateOrderShipment oid pkg ?s2 = (e, s')"
    by (cases "updateOrderShipment oid pkg ?s2") auto
  from updateOrderShipment_effects(1) [OF u row2] u have "updateOrderShipment oid pkg ?s2 = (None, s')"
    by simp
  with assms(2) r ins show ?thesis
    by (simp add: shipPackage_def shipment_row_def)
qed

lemma shipPackages_succeeds:
  "findOrder s oid = Some row \<Longrightarrow>
     \<forall>pkg\<in>set pkgs. \<not> calculateTotalMass s pkg > MAX_PACKAGE_WEIGHT_G \<Longrightarrow>
     \<forall>line\<in>set (concat pkgs). 0 < quantity line \<Longrightarrow>
     \<forall>line\<in>set (concat pkgs).
        qty_of (productId line) (concat pkgs) \<le> getAvailableStock s (productId line) \<Longrightarrow>
     \<exists>s'. shipPackages oid pkgs s = (None, s')"
proof (induction pkgs arbitrary: s row)
  case Nil
  then show ?case by simp
next
  case (Cons pkg rest)
  from Cons.prems(3) have pos: "\<forall>line\<in>set pkg. 0 < quantity line"
    and pos': "\<forall>line\<in>set (concat rest). 0 < quantity line" by simp_all
  from pos' have nonneg': "\<forall>line\<in>set (concat rest). 0 \<le> quantity line" by fastforce
  from pos have nonneg: "\<forall>line\<in>set pkg. 0 \<le> quantity line" by fastforce
  have fits: "\<forall>line\<in>set pkg. qty_of (productId line) pkg \<le> getAvailableStock s (productId line)"
  proof
    fix line
    assume "line \<in> set pkg"
    with Cons.prems(4)
    have "qty_of (productId line) (concat (pkg # rest)) \<le> getAvailableStock s (productId line)"
      by simp
    with qty_of_nonneg [OF nonneg', of "productId line"]
    show "qty_of (productId line) pkg \<le> getAvailableStock s (productId line)" by simp
  qed
  from Cons.prems(2) have light: "\<not> calculateTotalMass s pkg > MAX_PACKAGE_WEIGHT_G" by simp
  from shipPackage_succeeds [OF Cons.prems(1) light pos fits] obtain s1 where
    one: "shipPackage oid pkg s = (None, s1)" by blast
  note eff = shipPackage_effects [OF one]
  from eff(1) obtain row1 where row1: "findOrder s1 oid = Some row1" by blast
  from eff(4) Cons.prems(2)
  have light1: "\<forall>pkg\<in>set rest. \<not> calculateTotalMass s1 pkg > MAX_PACKAGE_WEIGHT_G"
    by (simp add: same_masses_total)
  have fits1: "\<forall>line\<in>set (concat rest).
        qty_of (productId line) (concat rest) \<le> getAvailableStock s1 (productId line)"
  proof
    fix line
    assume "line \<in> set (concat rest)"
    with Cons.prems(4)
    have "qty_of (productId line) (concat (pkg # rest)) \<le> getAvailableStock s (productId line)"
      by simp
    with eff(3) show "qty_of (productId line) (concat rest) \<le> getAvailableStock s1 (productId line)"
      by simp
  qed
  from Cons.IH [OF row1 light1 pos' fits1] one show ?case by simp
qed

lemma productId_foldl_addItem:
  "productId ` set (foldl addItem items lines) = productId ` set items \<union> productId ` set lines"
  by (induction lines arbitrary: items) (auto simp: productId_addItem)

lemma foldl_addItem_positive:
  "\<forall>x\<in>set items. 0 < quantity x \<Longrightarrow> \<forall>x\<in>set lines. 0 < quantity x \<Longrightarrow>
     \<forall>x\<in>set (foldl addItem items lines). 0 < quantity x"
proof (induction lines arbitrary: items)
  case Nil
  then show ?case by simp
next
  case (Cons it rest)
  from Cons.prems have first: "\<forall>x\<in>set (addItem items it). 0 < quantity x"
    by (intro addItem_positive) simp_all
  from Cons.prems(2) have "\<forall>x\<in>set rest. 0 < quantity x" by simp
  from Cons.IH [OF first this] show ?case by simp
qed

lemma processBatch_succeeds:
  assumes "findOrder s oid = Some row"
    and "\<forall>pkg\<in>set batch. \<not> calculateTotalMass s pkg > MAX_PACKAGE_WEIGHT_G"
    and "\<forall>line\<in>set (concat batch). 0 < quantity line"
    and "\<forall>line\<in>set (concat batch).
           qty_of (productId line) (concat batch) \<le> getAvailableStock s (productId line)"
  shows "\<exists>s'. processBatch oid batch s = (None, s')"
proof -
  let ?items = "foldl addItem [] (concat batch)"
  let ?data = "map (shipment_row s oid) batch"
  have c: "collectBatch s oid batch [] [] = (?items, ?data)"
    using collectBatch_all [OF assms(2), of oid "[]" "[]"] by simp
  have pos: "\<forall>line\<in>set ?items. 0 < quantity line"
    using assms(3) by (intro foldl_addItem_positive) simp_all
  have fits: "\<forall>line\<in>set ?items. qty_of (productId line) ?items \<le> getAvailableStock s (productId line)"
  proof
    fix line
    assume "line \<in> set ?items"
    then have "productId line \<in> productId ` set ?items" by simp
    then have "productId line \<in> productId ` set (concat batch)"
      by (simp add: productId_foldl_addItem)
    then obtain line' where "line' \<in> set (concat batch)" "productId line' = productId line"
      unfolding image_iff by metis
    with assms(4)
    have "qty_of (productId line) (concat batch) \<le> getAvailableStock s (productId line)"
      by metis
    then show "qty_of (productId line) ?items \<le> getAvailableStock s (productId line)"
      by (simp add: qty_of_foldl_addItem)
  qed
  show ?thesis
  proof (cases "?items = []")
    case True
    have "insertShipments ?data s = (None, s\<lparr>shipmentRows := shipmentRows s @ ?data\<rparr>)"
      using assms(1) by (auto simp: insertShipments_found shipment_row_def)
    then show ?thesis
      by (cases "batch = []") (simp_all add: processBatch_def c True)
  next
    case False
    then have data: "?data \<noteq> []" by auto
    from reserveStock_succeeds [OF pos fits] obtain s1 where r: "reserveStock ?items s = (None, s1)"
      by blast
    from reserveStock_orderRows [OF r] assms(1) have row1: "findOrder s1 oid = Some row"
      by (simp add: findOrder_def)
    let ?s2 = "s1\<lparr>shipmentRows := shipmentRows s1 @ ?data\<rparr>"
    from row1 have ins: "insertShipments ?data s1 = (None, ?s2)"
      by (auto simp: insertShipments_found shipment_row_def)
    from row1 have row2: "findOrder ?s2 oid = Some row" by (simp add: findOrder_def)
    obtain e s' where u: "updateOrderShipment oid ?items ?s2 = (e, s')"
      by (cases "updateOrderShipment oid ?items ?s2") auto
    from updateOrderShipment_effects(1) [OF u row2] u
    have "updateOrderShipment oid ?items ?s2 = (None, s')" by simp
    with False data r ins have "processBatch oid batch s = (None, s')"
      unfolding processBatch_def c by simp
    then show ?thesis by blast
  qed
qed

lemma batchLoop_succeeds:
  "findOrder s oid = Some row \<Longrightarrow>
     \<forall>pkg\<in>set pkgs. \<not> calculateTotalMass s pkg > MAX_PACKAGE_WEIGHT_G \<Longrightarrow>
     \<forall>line\<in>set (concat (drop i pkgs)). 0 < quantity line \<Longrightarrow>
     \<forall>line\<in>set (concat (drop i pkgs)).
        qty_of (productId line) (concat (drop i pkgs)) \<le> getAvailableStock s (productId line) \<Longrightarrow>
     \<exists>s'. batchLoop oid pkgs i s = (None, s')"
proof (induction oid pkgs i s arbitrary: row rule: batchLoop.induct)
  case (1 oid pkgs i s)
  show ?case
  proof (cases "i < length pkgs")
    case False
    then show ?thesis by (simp add: batchLoop.simps [of oid pkgs i s])
  next
    case True
    let ?batch = "take BATCH_SIZE (drop i pkgs)"
    let ?rest = "drop (i + BATCH_SIZE) pkgs"
    have parts: "drop i pkgs = ?batch @ ?rest" by (rule drop_batch)
    have c: "concat (drop i pkgs) = concat ?batch @ concat ?rest"
      by (subst parts) simp
    from "1.prems"(3) have pos: "\<forall>line\<in>set (concat ?batch). 0 < quantity line"
      and pos': "\<forall>line\<in>set (concat ?rest). 0 < quantity line"
      unfolding c by simp_all
    from pos' have nonneg': "\<forall>line\<in>set (concat ?rest). 0 \<le> quantity line" by fastforce
    have fits: "\<forall>line\<in>set (concat ?batch).
        qty_of (productId line) (concat ?batch) \<le> getAvailableStock s (productId line)"
    proof
      fix line
      assume "line \<in> set (concat ?batch)"
      with "1.prems"(4)
      have "qty_of (productId line) (concat ?batch @ concat ?rest)
              \<le> getAvailableStock s (productId line)"
        unfolding c by simp
      with qty_of_nonneg [OF nonneg', of "productId line"]
      show "qty_of (productId line) (concat ?batch) \<le> getAvailableStock s (productId line)"
        by simp
    qed
    from "1.prems"(2) have light: "\<forall>pkg\<in>set ?batch. \<not> calculateTotalMass s pkg > MAX_PACKAGE_WEIGHT_G"
      by (auto dest: in_set_takeD in_set_dropD)
    from processBatch_succeeds [OF "1.prems"(1) light pos fits] obtain s1 where
      one: "processBatch oid ?batch s = (None, s1)" by blast
    note eff = processBatch_effects [OF one "1.prems"(1) light]
    from eff(1) obtain row1 where row1: "findOrder s1 oid = Some row1" by blast
    from eff(4) "1.prems"(2)
    have light1: "\<forall>pkg\<in>set pkgs. \<not> calculateTotalMass s1 pkg > MAX_PACKAGE_WEIGHT_G"
      by (simp add: same_masses_total)
    have fits1: "\<forall>line\<in>set (concat ?rest).
        qty_of (productId line) (concat ?rest) \<le> getAvailableStock s1 (productId line)"
    proof
      fix line
      assume "line \<in> set (concat ?rest)"
      with "1.prems"(4)
      have "qty_of (productId line) (concat ?batch @ concat ?rest)
              \<le> getAvailableStock s (productId line)"
        unfolding c by simp
      with eff(3) show "qty_of (productId line) (concat ?rest) \<le> getAvailableStock s1 (productId line)"
        by simp
    qed
    from "1.IH" [OF True one [symmetric] refl row1 light1 pos' fits1] obtain s' where
      "batchLoop oid pkgs (i + BATCH_SIZE) s1 = (None, s')" by blast
    with True one show ?thesis by (simp add: batchLoop.simps [of oid pkgs i s])
  qed
qed

text \<open>
  The packing loop returns whenever the unit masses are not negative: an item heavier than
  the limit is skipped at once.
\<close>

lemma packItem_returns:
  assumes "0 < maxWeightG" and "0 \<le> unitWeight" and "0 \<le> remainingQuantity"
  shows "\<exists>result. packItem s maxWeightG pid unitWeight remainingQuantity shipments = Some result"
proof (cases "unitWeight \<le> maxWeightG")
  case True
  from packItem_terminates [OF assms(1,2) True assms(3)] show ?thesis by blast
next
  case False
  with assms(1) have "maxWeightG div unitWeight = 0" by (simp add: div_pos_pos_trivial)
  with False assms(1) have "floor_quotient maxWeightG unitWeight = Finite 0"
    by (simp add: floor_quotient_def)
  then show ?thesis by (subst packItem.simps) simp
qed

lemma packItems_returns:
  assumes "0 < maxWeightG"
  shows "\<forall>(it, unitWeight)\<in>set entries. 0 \<le> unitWeight \<and> 0 \<le> quantity it \<Longrightarrow>
     \<exists>result. packItems s maxWeightG entries shipments = Some result"
proof (induction entries arbitrary: shipments)
  case Nil
  then show ?case by simp
next
  case (Cons entry rest)
  obtain it unitWeight where entry: "entry = (it, unitWeight)" by (cases entry)
  with Cons.prems have "0 \<le> unitWeight" "0 \<le> quantity it"
    and rest: "\<forall>(it, unitWeight)\<in>set rest. 0 \<le> unitWeight \<and> 0 \<le> quantity it"
    by auto
  from packItem_returns [OF assms this(1,2), of s "productId it" shipments] obtain shipments' where
    "packItem s maxWeightG (productId it) unitWeight (quantity it) shipments = Some shipments'"
    by blast
  with Cons.IH [OF rest, of shipments'] entry show ?case by simp
qed

lemma packShipment_returns:
  assumes "0 < maxWeightG"
    and "\<forall>line\<in>set items. \<forall>product. getProduct s (productId line) = Some product
            \<longrightarrow> 0 \<le> massG product"
  shows "\<exists>pkgs. packShipment s items maxWeightG = Some pkgs"
proof -
  have "\<forall>(it, unitWeight)\<in>set (itemsWithWeight s items). 0 \<le> unitWeight \<and> 0 \<le> quantity it"
  proof (intro ballI, clarify)
    fix it unitWeight
    assume mem: "(it, unitWeight) \<in> set (itemsWithWeight s items)"
    from itemsWithWeight_member [OF mem] assms(2)
    show "0 \<le> unitWeight \<and> 0 \<le> quantity it" by fastforce
  qed
  from packItems_returns [OF assms(1) this, of s "[]"] show ?thesis
    by (simp add: packShipment_def)
qed

text \<open>
  The packing loop for one item changes the packed quantity of no other product, and packs
  the whole quantity of its own product when the unit mass is within the limit.
\<close>

lemma packItem_exact:
  assumes "packItem s maxWeightG pid unitWeight remainingQuantity shipments = Some result"
    and "0 \<le> remainingQuantity"
    and "p = pid \<longrightarrow> 0 < maxWeightG \<and> 0 \<le> unitWeight \<and> unitWeight \<le> maxWeightG"
  shows "qty_of p (concat result)
           = qty_of p (concat shipments) + (if p = pid then remainingQuantity else 0)"
  using assms(2-)
proof (induction rule: packItem.raw_induct [OF _ assms(1)])
  case (1 loop s maxWeightG pid unitWeight remainingQuantity shipments result)
  note IH = "1.IH" and body = "1.hyps"
  have rem: "0 \<le> remainingQuantity"
    and own: "p = pid \<longrightarrow> 0 < maxWeightG \<and> 0 \<le> unitWeight \<and> unitWeight \<le> maxWeightG"
    using "1.prems" by simp_all
  show ?case
  proof (cases "0 < remainingQuantity")
    case False
    with body rem show ?thesis by (auto split: if_splits)
  next
    case True
    show ?thesis
    proof (cases "floor_quotient maxWeightG unitWeight = Finite 0")
      case heavy: True
      have "p \<noteq> pid"
      proof
        assume "p = pid"
        with own have W: "0 < maxWeightG" and uw: "0 \<le> unitWeight" "unitWeight \<le> maxWeightG"
          by simp_all
        show False
        proof (cases "unitWeight = 0")
          case True
          with W heavy show False by (simp add: floor_quotient_def)
        next
          case False
          with uw have "0 < maxWeightG div unitWeight" by (simp add: pos_imp_zdiv_pos_iff)
          with False heavy show False by (simp add: floor_quotient_def)
        qed
      qed
      with True heavy body show ?thesis by simp
    next
      case room: False
      show ?thesis
      proof (cases "addToExisting s maxWeightG pid unitWeight remainingQuantity shipments")
        case (Some added)
        obtain shipments' n where added: "added = (shipments', n)" by (cases added)
        from Some added True room body
        have rec: "loop s maxWeightG pid unitWeight (remainingQuantity - n) shipments' = Some result"
          by simp
        from addToExisting_Some [OF Some [unfolded added]] obtain before shipment after where
          split: "shipments = before @ shipment # after"
            "shipments' = before @ addItem shipment (Item pid n) # after"
          and n: "units_min (floor_quotient (maxWeightG - calculateShipmentWeight s shipment) unitWeight)
                    remainingQuantity = Some n"
          by blast
        from units_min_le [OF n] have rem': "0 \<le> remainingQuantity - n" by simp
        from split have "qty_of p (concat shipments')
             = qty_of p (concat shipments) + (if p = pid then n else 0)"
          by (simp add: qty_of_addItem)
        with IH [OF rec rem' own] show ?thesis by (simp split: if_splits)
      next
        case None
        with True room body obtain n where
          n: "units_min (floor_quotient maxWeightG unitWeight) remainingQuantity = Some n"
          and rec: "loop s maxWeightG pid unitWeight (remainingQuantity - n)
                      (shipments @ [[Item pid n]]) = Some result"
          by (auto split: option.splits)
        from units_min_le [OF n] have rem': "0 \<le> remainingQuantity - n" by simp
        have "qty_of p (concat (shipments @ [[Item pid n]]))
             = qty_of p (concat shipments) + (if p = pid then n else 0)"
          by simp
        with IH [OF rec rem' own] show ?thesis by (simp split: if_splits)
      qed
    qed
  qed
qed

lemma packItems_exact:
  "packItems s maxWeightG entries shipments = Some result \<Longrightarrow> 0 < maxWeightG \<Longrightarrow>
     \<forall>(it, unitWeight)\<in>set entries.
        0 \<le> quantity it \<and> (productId it = p \<longrightarrow> 0 \<le> unitWeight \<and> unitWeight \<le> maxWeightG) \<Longrightarrow>
     qty_of p (concat result) = qty_of p (concat shipments) + qty_of p (map fst entries)"
proof (induction entries arbitrary: shipments)
  case Nil
  then show ?case by simp
next
  case (Cons entry rest)
  obtain it unitWeight where entry: "entry = (it, unitWeight)" by (cases entry)
  from Cons.prems(1) entry obtain shipments' where
    one: "packItem s maxWeightG (productId it) unitWeight (quantity it) shipments = Some shipments'"
    and more: "packItems s maxWeightG rest shipments' = Some result"
    by (auto split: option.splits)
  from Cons.prems(3) entry have q: "0 \<le> quantity it"
    and own: "productId it = p \<longrightarrow> 0 \<le> unitWeight \<and> unitWeight \<le> maxWeightG"
    and rest: "\<forall>(it, unitWeight)\<in>set rest.
        0 \<le> quantity it \<and> (productId it = p \<longrightarrow> 0 \<le> unitWeight \<and> unitWeight \<le> maxWeightG)"
    by auto
  from own Cons.prems(2)
  have "p = productId it \<longrightarrow> 0 < maxWeightG \<and> 0 \<le> unitWeight \<and> unitWeight \<le> maxWeightG"
    by auto
  from packItem_exact [OF one q this] Cons.IH [OF more Cons.prems(2) rest] entry
  show ?case by (auto split: if_splits)
qed

lemma qty_of_filter_kept:
  "\<forall>line\<in>set items. productId line = p \<longrightarrow> P line \<Longrightarrow> qty_of p (filter P items) = qty_of p items"
  by (induction items) auto

lemma packShipment_exact:
  assumes "packShipment s items maxWeightG = Some pkgs" and "0 < maxWeightG"
    and "getProduct s p = Some product" and "0 \<le> massG product" and "massG product \<le> maxWeightG"
    and "\<forall>line\<in>set items. 0 < quantity line"
  shows "qty_of p (concat pkgs) = qty_of p items"
proof -
  from assms(1) have run: "packItems s maxWeightG (itemsWithWeight s items) [] = Some pkgs"
    by (simp add: packShipment_def)
  have "\<forall>(it, unitWeight)\<in>set (itemsWithWeight s items).
        0 \<le> quantity it \<and> (productId it = p \<longrightarrow> 0 \<le> unitWeight \<and> unitWeight \<le> maxWeightG)"
  proof (intro ballI, clarify)
    fix it unitWeight
    assume mem: "(it, unitWeight) \<in> set (itemsWithWeight s items)"
    from itemsWithWeight_member [OF mem] assms(3,4,5)
    show "0 \<le> quantity it \<and> (productId it = p \<longrightarrow> 0 \<le> unitWeight \<and> unitWeight \<le> maxWeightG)"
      by auto
  qed
  from packItems_exact [OF run assms(2) this]
  have "qty_of p (concat pkgs) = qty_of p (map fst (itemsWithWeight s items))" by simp
  also have "\<dots> = qty_of p (map fst (filter (\<lambda>(it, unitWeight). getProduct s (productId it) \<noteq> None \<and> quantity it > 0)
          (map (\<lambda>it. (it, case getProduct s (productId it) of
                             Some product \<Rightarrow> massG product
                           | None \<Rightarrow> 0)) items)))"
    unfolding itemsWithWeight_def qty_of_def by (simp add: sum_list_sort_key comp_def)
  also have "map fst (filter (\<lambda>(it, unitWeight). getProduct s (productId it) \<noteq> None \<and> quantity it > 0)
          (map (\<lambda>it. (it, case getProduct s (productId it) of
                             Some product \<Rightarrow> massG product
                           | None \<Rightarrow> 0)) items))
      = filter (\<lambda>it. getProduct s (productId it) \<noteq> None \<and> quantity it > 0) items"
    by (induction items) auto
  also have "qty_of p \<dots> = qty_of p items"
    using assms(3,6) by (intro qty_of_filter_kept) auto
  finally show ?thesis .
qed

text \<open>Lists of lines that name each product once.\<close>

lemma qty_of_distinct:
  "distinct (map productId items) \<Longrightarrow> line \<in> set items \<Longrightarrow>
     qty_of (productId line) items = quantity line"
  by (induction items) (auto simp: qty_of_absent)

lemma distinct_getRemainingItems:
  "distinct (map productId (requestedItems order)) \<Longrightarrow>
     distinct (map productId (getRemainingItems order))"
proof -
  have "distinct (map productId requested) \<Longrightarrow>
     distinct (map productId (concat (map (\<lambda>requestedItem.
        let remainingQuantity = quantity requestedItem - shipped (productId requestedItem)
        in if remainingQuantity > 0 then [Item (productId requestedItem) remainingQuantity] else [])
       requested)))
     \<and> productId ` set (concat (map (\<lambda>requestedItem.
        let remainingQuantity = quantity requestedItem - shipped (productId requestedItem)
        in if remainingQuantity > 0 then [Item (productId requestedItem) remainingQuantity] else [])
       requested)) \<subseteq> productId ` set requested"
    for requested :: "item list" and shipped :: "int \<Rightarrow> int"
    by (induction requested) (auto simp: Let_def)
  then show "distinct (map productId (requestedItems order)) \<Longrightarrow>
     distinct (map productId (getRemainingItems order))"
    by (simp add: getRemainingItems_def)
qed

lemma getRemainingItems_ids:
  "productId ` set (getRemainingItems order) \<subseteq> productId ` set (requestedItems order)"
  by (auto simp: getRemainingItems_def Let_def split: if_splits)

lemma getShippableItems_distinct:
  "distinct (map productId items) \<Longrightarrow>
     distinct (map productId (getShippableItems s items))
     \<and> productId ` set (getShippableItems s items) \<subseteq> productId ` set items"
  unfolding getShippableItems_def
  by (induction items) (auto simp: Let_def)

lemma getShippableItems_in_stock:
  "\<forall>line\<in>set (getShippableItems s items). quantity line \<le> getAvailableStock s (productId line)"
  by (auto simp: getShippableItems_def Let_def split: if_splits)

lemma getShippableItems_member:
  "Item p q \<in> set items \<Longrightarrow> 0 < min q (getAvailableStock s p) \<Longrightarrow>
     Item p (min q (getAvailableStock s p)) \<in> set (getShippableItems s items)"
  by (force simp: getShippableItems_def Let_def)

lemma getShippableItems_out_of_stock:
  "getAvailableStock s p \<le> 0 \<Longrightarrow> p \<notin> productId ` set (getShippableItems s items)"
  by (auto simp: getShippableItems_def Let_def split: if_splits)

lemma packShipment_ids:
  assumes "packShipment s items maxWeightG = Some pkgs"
  shows "productId ` set (concat pkgs) \<subseteq> productId ` set items"
proof -
  from assms have run: "packItems s maxWeightG (itemsWithWeight s items) [] = Some pkgs"
    by (simp add: packShipment_def)
  have "\<forall>(it, unitWeight)\<in>set (itemsWithWeight s items). productId it \<in> productId ` set items"
    using itemsWithWeight_member(1) by fastforce
  from packItems_product_ids [OF run this] show ?thesis by auto
qed

text \<open>
  An attempt for an order that lists each product once, over a catalog without negative unit
  masses: the packing returns, every package is committed, and the attempt returns without
  an error.
\<close>

lemma attemptFulfillment_succeeds:
  assumes row: "findOrder s (orderId order) = Some row"
    and once: "distinct (map productId (requestedItems order))"
    and masses: "\<forall>line\<in>set (requestedItems order). \<forall>product.
                   catalog s (productId line) = Some product \<longrightarrow> 0 \<le> massG product"
  shows "\<exists>pkgs s'. packShipment s (getShippableItems s (getRemainingItems order))
                      MAX_PACKAGE_WEIGHT_G = Some pkgs
       \<and> attemptFulfillment order s = Some (None, s')
       \<and> (\<forall>other. other \<noteq> orderId order \<longrightarrow> findOrder s' other = findOrder s other)
       \<and> (\<forall>p. getAvailableStock s' p = getAvailableStock s p - qty_of p (concat pkgs))
       \<and> (\<exists>row'. findOrder s' (orderId order) = Some row' \<and> shipped_more row (concat pkgs) row')"
proof -
  let ?oid = "orderId order"
  let ?remaining = "getRemainingItems order"
  let ?shippable = "getShippableItems s ?remaining"
  have W: "0 < MAX_PACKAGE_WEIGHT_G" by (simp add: MAX_PACKAGE_WEIGHT_G_def)
  from distinct_getRemainingItems [OF once]
  have d: "distinct (map productId ?shippable)"
    and ids: "productId ` set ?shippable \<subseteq> productId ` set ?remaining"
    using getShippableItems_distinct by blast+
  from ids getRemainingItems_ids [of order]
  have ids': "productId ` set ?shippable \<subseteq> productId ` set (requestedItems order)" by blast
  have "\<forall>line\<in>set ?shippable. \<forall>product. getProduct s (productId line) = Some product
            \<longrightarrow> 0 \<le> massG product"
  proof (intro ballI allI impI)
    fix line product
    assume "line \<in> set ?shippable" and cat: "getProduct s (productId line) = Some product"
    with ids' obtain line' where "line' \<in> set (requestedItems order)"
      "productId line' = productId line"
      unfolding image_iff subset_iff by metis
    with masses cat show "0 \<le> massG product" by (auto simp: getProduct_def)
  qed
  from packShipment_returns [OF W this] obtain pkgs where
    pack: "packShipment s ?shippable MAX_PACKAGE_WEIGHT_G = Some pkgs" by blast
  note packed = packShipment_packages [OF pack]
  from getShippableItems_positive [of s ?remaining]
  have nonneg: "\<forall>line\<in>set ?shippable. 0 \<le> quantity line" by fastforce
  note bounds = packShipment_bounds [OF pack W nonneg]
  from bounds(2) have pos: "\<forall>line\<in>set (concat pkgs). 0 < quantity line" by simp
  have fits: "\<forall>line\<in>set (concat pkgs).
        qty_of (productId line) (concat pkgs) \<le> getAvailableStock s (productId line)"
  proof
    fix line
    assume "line \<in> set (concat pkgs)"
    with packShipment_ids [OF pack] obtain line' where
      mem: "line' \<in> set ?shippable" and same: "productId line' = productId line"
      unfolding image_iff subset_iff by metis
    from bounds(1) [of "productId line"]
    have "qty_of (productId line) (concat pkgs) \<le> qty_of (productId line') ?shippable"
      by (simp add: same)
    also from qty_of_distinct [OF d mem] have "\<dots> = quantity line'" .
    also from getShippableItems_in_stock mem
    have "\<dots> \<le> getAvailableStock s (productId line')" by blast
    finally show "qty_of (productId line) (concat pkgs) \<le> getAvailableStock s (productId line)"
      by (simp add: same)
  qed
  have "\<exists>s'. attemptFulfillment order s = Some (None, s')
       \<and> (\<forall>other. other \<noteq> ?oid \<longrightarrow> findOrder s' other = findOrder s other)
       \<and> (\<forall>p. getAvailableStock s' p = getAvailableStock s p - qty_of p (concat pkgs))
       \<and> (\<exists>row'. findOrder s' ?oid = Some row' \<and> shipped_more row (concat pkgs) row')"
  proof (cases "?remaining = [] \<or> ?shippable = []")
    case True
    then have "?shippable = []" by (auto simp: getShippableItems_def)
    with pack have "pkgs = []" by (simp add: packShipment_Nil)
    moreover from True have "attemptFulfillment order s = Some (None, s)"
      by (auto simp: attemptFulfillment_def Let_def)
    ultimately show ?thesis using row by simp
  next
    case False
    show ?thesis
    proof (cases "length pkgs > 100")
      case True
      from pos fits have pos0: "\<forall>line\<in>set (concat (drop 0 pkgs)). 0 < quantity line"
        and fits0: "\<forall>line\<in>set (concat (drop 0 pkgs)).
            qty_of (productId line) (concat (drop 0 pkgs)) \<le> getAvailableStock s (productId line)"
        by simp_all
      from batchLoop_succeeds [OF row packed(2) pos0 fits0] obtain s' where
        run: "batchLoop ?oid pkgs 0 s = (None, s')" by blast
      from True False pack run have "attemptFulfillment order s = Some (None, s')"
        by (simp add: attemptFulfillment_def Let_def batchShipPackages_def)
      with batchLoop_effects [OF run row packed(2)] show ?thesis by auto
    next
      case small: False
      from shipPackages_succeeds [OF row packed(2) pos fits] obtain s' where
        run: "shipPackages ?oid pkgs s = (None, s')" by blast
      from small False pack run have "attemptFulfillment order s = Some (None, s')"
        by (simp add: attemptFulfillment_def Let_def)
      with shipPackages_effects(1,2,3) [OF run row] show ?thesis by auto
    qed
  qed
  with pack show ?thesis by blast
qed

lemma untouched_refl [simp]: "untouched p s s"
  by (simp add: untouched_def)

lemma untouched_trans: "untouched p s s1 \<Longrightarrow> untouched p s1 s2 \<Longrightarrow> untouched p s s2"
  unfolding untouched_def by (metis option.inject)

lemma untouched_rows:
  "orderRows s' = orderRows s \<Longrightarrow> getAvailableStock s' p = getAvailableStock s p \<Longrightarrow>
     untouched p s s'"
  by (simp add: untouched_def findOrder_def)

text \<open>
  Whatever its outcome, shipping for one order changes the row of no other order, and it
  leaves alone the stock and all shipped quantities of a product that is in none of the
  packages.
\<close>

lemma shipPackage_others:
  assumes "shipPackage oid pkg s = (e, s')"
  shows "(\<forall>other. other \<noteq> oid \<longrightarrow> findOrder s' other = findOrder s other)
        \<and> (p \<notin> productId ` set pkg \<longrightarrow> untouched p s s')"
proof (cases "calculateTotalMass s pkg > MAX_PACKAGE_WEIGHT_G")
    case True
    with assms have "s' = s" by (simp add: shipPackage_def)
    then show ?thesis by simp
  next
    case False
    obtain e1 s1 where r: "reserveStock pkg s = (e1, s1)"
      by (cases "reserveStock pkg s") auto
    from reserveStock_orderRows [OF r] have rows1: "orderRows s1 = orderRows s" .
    have stock1: "p \<notin> productId ` set pkg \<Longrightarrow> getAvailableStock s1 p = getAvailableStock s p"
      by (rule reserveStock_frame(3) [OF r])
    show ?thesis
    proof (cases e1)
      case (Some err)
      with assms False r have "s' = s1" by (simp add: shipPackage_def)
      with rows1 stock1 show ?thesis by (simp add: untouched_rows findOrder_def)
    next
      case None
      obtain e2 s2 where ins: "insertShipments [shipment_row s oid pkg] s1 = (e2, s2)"
        by (cases "insertShipments [shipment_row s oid pkg] s1") auto
      from insertShipments_orderRows [OF ins] rows1 have rows2: "orderRows s2 = orderRows s" by simp
      from insertShipments_catalog [OF ins]
      have stock2: "p \<notin> productId ` set pkg \<Longrightarrow> getAvailableStock s2 p = getAvailableStock s p"
        using stock1 by (simp add: getAvailableStock_def)
      show ?thesis
      proof (cases e2)
        case (Some err)
        with None assms False r ins have "s' = s2"
          by (simp add: shipPackage_def shipment_row_def)
        with rows2 stock2 show ?thesis by (simp add: untouched_rows findOrder_def)
      next
        case inserted: None
        with None assms False r ins have u: "updateOrderShipment oid pkg s2 = (e, s')"
          by (simp add: shipPackage_def shipment_row_def)
        show ?thesis
        proof (cases "findOrder s2 oid")
          case None
          with u have "s' = s2" by (simp add: updateOrderShipment_def)
          with rows2 stock2 show ?thesis by (simp add: untouched_rows findOrder_def)
        next
          case (Some row)
          note eff = updateOrderShipment_effects [OF u Some]
          from eff(5) rows2
          have others: "\<forall>other. other \<noteq> oid \<longrightarrow> findOrder s' other = findOrder s other"
            by (simp add: findOrder_def)
          have "untouched p s s'" if absent: "p \<notin> productId ` set pkg"
          proof -
            from eff(6) obtain row' where r': "findOrder s' oid = Some row'"
              "shipped_more row pkg row'" by blast
            from r'(2) absent have same: "shippedQuantity row' p = shippedQuantity row p"
              by (simp add: shipped_more_def qty_of_absent)
            from eff(2) stock2 [OF absent]
            have "getAvailableStock s' p = getAvailableStock s p"
              by (simp add: getAvailableStock_def)
            moreover have "\<forall>oid' row0. findOrder s oid' = Some row0 \<longrightarrow>
               (\<exists>row1. findOrder s' oid' = Some row1 \<and> shippedQuantity row1 p = shippedQuantity row0 p)"
            proof (intro allI impI)
              fix oid' row0
              assume found: "findOrder s oid' = Some row0"
              show "\<exists>row1. findOrder s' oid' = Some row1 \<and> shippedQuantity row1 p = shippedQuantity row0 p"
              proof (cases "oid' = oid")
                case True
                with found Some rows2 have "row0 = row" by (simp add: findOrder_def)
                with True r'(1) same show ?thesis by simp
              next
                case False
                with others found show ?thesis by simp
              qed
            qed
            ultimately show ?thesis by (simp add: untouched_def)
          qed
          with others show ?thesis by simp
        qed
      qed
    qed
qed

lemma shipPackages_others:
  "shipPackages oid pkgs s = (e, s') \<Longrightarrow>
     (\<forall>other. other \<noteq> oid \<longrightarrow> findOrder s' other = findOrder s other)
     \<and> (p \<notin> productId ` set (concat pkgs) \<longrightarrow> untouched p s s')"
proof (induction pkgs arbitrary: s)
  case Nil
  then show ?case by simp
next
  case (Cons pkg rest)
  obtain e1 s1 where one: "shipPackage oid pkg s = (e1, s1)"
    by (cases "shipPackage oid pkg s") auto
  note first = shipPackage_others [OF one, where p = p]
  show ?case
  proof (cases e1)
    case (Some err)
    with Cons.prems one have "s' = s1" by simp
    with first show ?thesis by auto
  next
    case None
    with Cons.prems one have "shipPackages oid rest s1 = (e, s')" by simp
    from Cons.IH [OF this] first show ?thesis
      by (auto intro: untouched_trans)
  qed
qed

lemma collectBatch_ids:
  "collectBatch s oid batch allBatchItems shipmentData = (collected, shipmentData') \<Longrightarrow>
     productId ` set collected \<subseteq> productId ` set allBatchItems \<union> productId ` set (concat batch)"
proof (induction batch arbitrary: allBatchItems shipmentData)
  case Nil
  then show ?case by simp
next
  case (Cons pkg rest)
  show ?case
  proof (cases "calculateTotalMass s pkg > MAX_PACKAGE_WEIGHT_G")
    case True
    with Cons.prems have "collectBatch s oid rest allBatchItems shipmentData = (collected, shipmentData')"
      by simp
    from Cons.IH [OF this] show ?thesis by auto
  next
    case False
    with Cons.prems obtain data where
      "collectBatch s oid rest (foldl addItem allBatchItems pkg) data = (collected, shipmentData')"
      by (simp add: Let_def)
    from Cons.IH [OF this] show ?thesis by (auto simp: productId_foldl_addItem)
  qed
qed

lemma processBatch_others:
  assumes "processBatch oid batch s = (e, s')"
  shows "(\<forall>other. other \<noteq> oid \<longrightarrow> findOrder s' other = findOrder s other)
     \<and> (p \<notin> productId ` set (concat batch) \<longrightarrow> untouched p s s')"
proof -
  obtain collected shipmentData where c: "collectBatch s oid batch [] [] = (collected, shipmentData)"
    by (cases "collectBatch s oid batch [] []") auto
  from collectBatch_ids [OF c]
  have ids: "productId ` set collected \<subseteq> productId ` set (concat batch)" by simp
  obtain e1 s1 where r: "(if collected \<noteq> [] then reserveStock collected s else (None, s)) = (e1, s1)"
    by (cases "if collected \<noteq> [] then reserveStock collected s else (None, s)") auto
  then have rows1: "orderRows s1 = orderRows s"
    by (auto split: if_splits dest: reserveStock_orderRows)
  have stock1: "getAvailableStock s1 p = getAvailableStock s p"
    if "p \<notin> productId ` set (concat batch)"
  proof -
    from that ids have "p \<notin> productId ` set collected" by blast
    with r show ?thesis by (auto split: if_splits dest: reserveStock_frame(3))
  qed
  show ?thesis
  proof (cases e1)
    case (Some err)
    with assms c r have "s' = s1" by (simp add: processBatch_def)
    with rows1 stock1 show ?thesis by (simp add: untouched_rows findOrder_def)
  next
    case None
    obtain e2 s2 where
      ins: "(if shipmentData \<noteq> [] then insertShipments shipmentData s1 else (None, s1)) = (e2, s2)"
      by (cases "if shipmentData \<noteq> [] then insertShipments shipmentData s1 else (None, s1)") auto
    with rows1 have rows2: "orderRows s2 = orderRows s"
      by (auto split: if_splits dest: insertShipments_orderRows)
    from ins have "catalog s2 = catalog s1"
      by (auto split: if_splits dest: insertShipments_catalog)
    with stock1 have stock2: "getAvailableStock s2 p = getAvailableStock s p"
      if "p \<notin> productId ` set (concat batch)"
      using that by (simp add: getAvailableStock_def)
    show ?thesis
    proof (cases "e2 \<noteq> None \<or> collected = [] \<or> findOrder s2 oid = None")
      case True
      with None assms c r ins have "s' = s2"
        by (auto simp: processBatch_def updateOrderShipment_def split: option.splits if_splits)
      with rows2 stock2 show ?thesis by (simp add: untouched_rows findOrder_def)
    next
      case False
      then obtain row where inserted: "e2 = None" and items: "collected \<noteq> []"
        and row: "findOrder s2 oid = Some row" by auto
      with None assms c r ins have u: "updateOrderShipment oid collected s2 = (e, s')"
        by (simp add: processBatch_def)
      note eff = updateOrderShipment_effects [OF u row]
      from eff(5) rows2
      have others: "\<forall>other. other \<noteq> oid \<longrightarrow> findOrder s' other = findOrder s other"
        by (simp add: findOrder_def)
      have "untouched p s s'" if absent: "p \<notin> productId ` set (concat batch)"
      proof -
        from absent ids have absent': "p \<notin> productId ` set collected" by blast
        from eff(6) obtain row' where r': "findOrder s' oid = Some row'"
          "shipped_more row collected row'" by blast
        from r'(2) absent' have same: "shippedQuantity row' p = shippedQuantity row p"
          by (simp add: shipped_more_def qty_of_absent)
        from eff(2) stock2 [OF absent]
        have "getAvailableStock s' p = getAvailableStock s p"
          by (simp add: getAvailableStock_def)
        moreover have "\<forall>oid' row0. findOrder s oid' = Some row0 \<longrightarrow>
           (\<exists>row1. findOrder s' oid' = Some row1 \<and> shippedQuantity row1 p = shippedQuantity row0 p)"
        proof (intro allI impI)
          fix oid' row0
          assume found: "findOrder s oid' = Some row0"
          show "\<exists>row1. findOrder s' oid' = Some row1 \<and> shippedQuantity row1 p = shippedQuantity row0 p"
          proof (cases "oid' = oid")
            case True
            with found row rows2 have "row0 = row" by (simp add: findOrder_def)
            with True r'(1) same show ?thesis by simp
          next
            case False
            with others found show ?thesis by simp
          qed
        qed
        ultimately show ?thesis by (simp add: untouched_def)
      qed
      with others show ?thesis by simp
    qed
  qed
qed

lemma batchLoop_others:
  "batchLoop oid pkgs i s = (e, s') \<Longrightarrow>
     (\<forall>other. other \<noteq> oid \<longrightarrow> findOrder s' other = findOrder s other)
     \<and> (p \<notin> productId ` set (concat pkgs) \<longrightarrow> untouched p s s')"
proof (induction oid pkgs i s rule: batchLoop.induct)
  case (1 oid pkgs i s)
  show ?case
  proof (cases "i < length pkgs")
    case False
    with "1.prems" have "s' = s" by (simp add: batchLoop.simps [of oid pkgs i s])
    then show ?thesis by simp
  next
    case True
    let ?batch = "take BATCH_SIZE (drop i pkgs)"
    obtain e1 s1 where one: "processBatch oid ?batch s = (e1, s1)"
      by (cases "processBatch oid ?batch s") auto
    have sub: "productId ` set (concat ?batch) \<subseteq> productId ` set (concat pkgs)"
      by (auto dest!: in_set_takeD in_set_dropD)
    from processBatch_others [OF one, where p = p] sub
    have first: "\<forall>other. other \<noteq> oid \<longrightarrow> findOrder s1 other = findOrder s other"
      "p \<notin> productId ` set (concat pkgs) \<longrightarrow> untouched p s s1"
      by blast+
    show ?thesis
    proof (cases e1)
      case (Some err)
      with "1.prems" True one have "s' = s1" by (simp add: batchLoop.simps [of oid pkgs i s])
      with first show ?thesis by simp
    next
      case None
      with "1.prems" True one have "batchLoop oid pkgs (i + BATCH_SIZE) s1 = (e, s')"
        by (simp add: batchLoop.simps [of oid pkgs i s])
      from "1.IH" [OF True one [symmetric] None this] first show ?thesis
        by (auto intro: untouched_trans)
    qed
  qed
qed

lemma attemptFulfillment_others:
  assumes "attemptFulfillment order s = Some (e, s')"
  shows "(\<forall>other. other \<noteq> orderId order \<longrightarrow> findOrder s' other = findOrder s other)
      \<and> (getAvailableStock s p \<le> 0 \<longrightarrow> untouched p s s')"
proof -
  let ?shippable = "getShippableItems s (getRemainingItems order)"
  show ?thesis
  proof (cases "getRemainingItems order = [] \<or> ?shippable = []")
    case True
    with assms have "s' = s" by (auto simp: attemptFulfillment_def Let_def split: if_splits)
    then show ?thesis by simp
  next
    case False
    with assms obtain pkgs where pack: "packShipment s ?shippable MAX_PACKAGE_WEIGHT_G = Some pkgs"
      and run: "(if length pkgs > 100 then batchShipPackages (orderId order) pkgs s
                 else shipPackages (orderId order) pkgs s) = (e, s')"
      by (auto simp: attemptFulfillment_def Let_def split: option.splits)
    have absent: "p \<notin> productId ` set (concat pkgs)" if "getAvailableStock s p \<le> 0"
      using getShippableItems_out_of_stock [OF that] packShipment_ids [OF pack] by blast
    show ?thesis
    proof (cases "length pkgs > 100")
      case True
      with run have "batchLoop (orderId order) pkgs 0 s = (e, s')"
        by (simp add: batchShipPackages_def)
      from batchLoop_others [OF this, where p = p] absent show ?thesis by blast
    next
      case False
      with run have "shipPackages (orderId order) pkgs s = (e, s')" by simp
      from shipPackages_others [OF this, where p = p] absent show ?thesis by blast
    qed
  qed
qed

lemma attemptAll_others:
  "attemptAll orders s = Some (e, s') \<Longrightarrow>
     (\<forall>other. other \<notin> orderId ` set orders \<longrightarrow> findOrder s' other = findOrder s other)
     \<and> (getAvailableStock s p \<le> 0 \<longrightarrow> untouched p s s')"
proof (induction orders arbitrary: s)
  case Nil
  then show ?case by simp
next
  case (Cons order rest)
  from Cons.prems obtain e1 s1 where one: "attemptFulfillment order s = Some (e1, s1)"
    by (auto split: option.splits)
  from attemptFulfillment_others [OF one, where p = p]
  have first: "\<forall>other. other \<noteq> orderId order \<longrightarrow> findOrder s1 other = findOrder s other"
    "getAvailableStock s p \<le> 0 \<Longrightarrow> untouched p s s1"
    by simp_all
  show ?case
  proof (cases e1)
    case (Some err)
    with Cons.prems one have "s' = s1" by simp
    with first show ?thesis by simp
  next
    case None
    with Cons.prems one have run: "attemptAll rest s1 = Some (e, s')" by simp
    from Cons.IH [OF run]
    have rest: "\<forall>other. other \<notin> orderId ` set rest \<longrightarrow> findOrder s' other = findOrder s1 other"
      "getAvailableStock s1 p \<le> 0 \<longrightarrow> untouched p s1 s'"
      by simp_all
    from rest(1) first(1)
    have "\<forall>other. other \<notin> orderId ` set (order # rest) \<longrightarrow> findOrder s' other = findOrder s other"
      by simp
    moreover have "untouched p s s'" if out: "getAvailableStock s p \<le> 0"
    proof -
      from first(2) [OF out] have u1: "untouched p s s1" .
      then have "getAvailableStock s1 p \<le> 0" using out by (simp add: untouched_def)
      with rest(2) u1 show ?thesis by (blast intro: untouched_trans)
    qed
    ultimately show ?thesis by simp
  qed
qed

lemma attemptAll_append:
  "attemptAll before s = Some (None, s1) \<Longrightarrow> attemptAll (before @ rest) s = attemptAll rest s1"
  by (induction before arbitrary: s) (auto split: option.splits prod.splits)

lemma getPendingOrders_sorted:
  "sorted (map createdAt (fst (getPendingOrders s)))
   \<and> set (fst (getPendingOrders s))
       = {row \<in> set (orderRows s). status row = PENDING \<or> status row = PARTIALLY_FULFILLED}
   \<and> length (fst (getPendingOrders s))
       = length (filter (\<lambda>row. status row = PENDING \<or> status row = PARTIALLY_FULFILLED) (orderRows s))"
  by (auto simp: getPendingOrders_def Let_def)

lemma attemptAll_split:
  "attemptAll (before @ order # after) s
     = (case attemptAll before s of
          None \<Rightarrow> None
        | Some (Some e, s1) \<Rightarrow> Some (Some e, s1)
        | Some (None, s1) \<Rightarrow>
            (case attemptFulfillment order s1 of
               None \<Rightarrow> None
             | Some (Some e, s2) \<Rightarrow> Some (Some e, s2)
             | Some (None, s2) \<Rightarrow> attemptAll after s2))"
  by (induction before arbitrary: s) (auto split: option.splits prod.splits)

lemma sorted_before:
  assumes "sorted (map f (xs @ a # ys))" and "b \<in> set (xs @ a # ys)" and "f a < f b"
  shows "b \<in> set ys"
proof -
  from assms(1) have "\<forall>x\<in>set xs. f x \<le> f a"
    by (auto simp: sorted_append)
  with assms(2,3) show ?thesis by fastforce
qed

lemma processRestock_negative_mass:
  "processRestock [(0, 1)] negative_waiting_system = None"
proof -
  let ?A = "\<lparr>orderId = 7, requestedItems = [Item 0 1], shippedItems = [], status = PENDING,
          totalShipments = 0, createdAt = 10\<rparr>"
  let ?B = "\<lparr>orderId = 8, requestedItems = [Item 0 1], shippedItems = [], status = PENDING,
          totalShipments = 0, createdAt = 20\<rparr>"
  let ?R = "inventory_processRestock [(0, 1)] negative_waiting_system"
  let ?S = "snd (getPendingOrders ?R)"
  have plist: "fst (getPendingOrders ?R) = [?A, ?B]" by code_simp
  have prod: "getProduct ?S 0
      = Some \<lparr>p_productId = 0, productName = ''RBC A+ Adult'', massG = - 1, quantityInStock = 1\<rparr>"
    by code_simp
  have shippable: "getShippableItems ?S (getRemainingItems ?A) = [Item 0 1]" by code_simp
  have loop: "packItem ?S MAX_PACKAGE_WEIGHT_G 0 (- 1) 1 [] = None"
  proof (rule ccontr)
    assume "packItem ?S MAX_PACKAGE_WEIGHT_G 0 (- 1) 1 [] \<noteq> None"
    then obtain result where "packItem ?S MAX_PACKAGE_WEIGHT_G 0 (- 1) 1 [] = Some result"
      by auto
    from packItem_negative_mass_diverges [OF this _ _ _ prod] show False
      by (simp add: MAX_PACKAGE_WEIGHT_G_def)
  qed
  have "itemsWithWeight ?S [Item 0 1] = [(Item 0 1, - 1)]"
    by (simp add: itemsWithWeight_def prod)
  with loop have "packShipment ?S [Item 0 1] MAX_PACKAGE_WEIGHT_G = None"
    by (simp add: packShipment_def)
  with shippable have "attemptFulfillment ?A ?S = None"
    by (simp add: attemptFulfillment_def Let_def getRemainingItems_def shippedQuantity_def)
  then have "attemptAll (fst (getPendingOrders ?R)) ?S = None"
    by (simp add: plist)
  then show ?thesis
    by (simp add: processRestock_def fulfillPendingOrders_def case_prod_unfold)
qed

text \<open>
  C7 as stated fails in its last part.  In each of three cases order 7 is enqueued before
  order 8, both for one product that is out of stock, and one unit of the product is
  restocked; the unit is shipped to neither.  When order 7 lists the product twice, each of
  its two lines is found shippable, the package of two units cannot be reserved, and the
  pass ends with \<open>InsufficientStock\<close> before order 8 is tried.  When the product is heavier
  than a package may be, the packing skips it.  When the unit mass is negative, the packing
  for order 7 never returns.
\<close>

theorem restocked_unit_goes_to_nobody:
  "map (\<lambda>row. (orderId row, createdAt row, status row, requestedItems row, shippedItems row))
       (orderRows twice_listed_system)
     = [(7, 10, PENDING, [Item 0 1, Item 0 1], []), (8, 20, PENDING, [Item 0 1], [])]
   \<and> getAvailableStock twice_listed_system 0 = 0
   \<and> map_option (\<lambda>(e, s). (e, map shippedItems (orderRows s), getAvailableStock s 0))
        (processRestock [(0, 1)] twice_listed_system)
       = Some (Some (InsufficientStock 0 1 2), [[], []], 1)
   \<and> map (\<lambda>row. (orderId row, createdAt row, status row, requestedItems row, shippedItems row))
       (orderRows heavy_waiting_system)
     = [(7, 10, PENDING, [Item 2 1], []), (8, 20, PENDING, [Item 2 1], [])]
   \<and> getAvailableStock heavy_waiting_system 2 = 0
   \<and> map_option (\<lambda>(e, s). (e, map shippedItems (orderRows s), getAvailableStock s 2))
        (processRestock [(2, 1)] heavy_waiting_system)
       = Some (None, [[], []], 1)
   \<and> map (\<lambda>row. (orderId row, createdAt row, status row, requestedItems row, shippedItems row))
       (orderRows negative_waiting_system)
     = [(7, 10, PENDING, [Item 0 1], []), (8, 20, PENDING, [Item 0 1], [])]
   \<and> getAvailableStock negative_waiting_system 0 = 0
   \<and> processRestock [(0, 1)] negative_waiting_system = None"
proof -
  have "map (\<lambda>row. (orderId row, createdAt row, status row, requestedItems row, shippedItems row))
       (orderRows twice_listed_system)
     = [(7, 10, PENDING, [Item 0 1, Item 0 1], []), (8, 20, PENDING, [Item 0 1], [])]"
    "getAvailableStock twice_listed_system 0 = 0"
    "map_option (\<lambda>(e, s). (e, map shippedItems (orderRows s), getAvailableStock s 0))
        (processRestock [(0, 1)] twice_listed_system)
       = Some (Some (InsufficientStock 0 1 2), [[], []], 1)"
    "map (\<lambda>row. (orderId row, createdAt row, status row, requestedItems row, shippedItems row))
       (orderRows heavy_waiting_system)
     = [(7, 10, PENDING, [Item 2 1], []), (8, 20, PENDING, [Item 2 1], [])]"
    "getAvailableStock heavy_waiting_system 2 = 0"
    "map_option (\<lambda>(e, s). (e, map shippedItems (orderRows s), getAvailableStock s 2))
        (processRestock [(2, 1)] heavy_waiting_system)
       = Some (None, [[], []], 1)"
    "map (\<lambda>row. (orderId row, createdAt row, status row, requestedItems row, shippedItems row))
       (orderRows negative_waiting_system)
     = [(7, 10, PENDING, [Item 0 1], []), (8, 20, PENDING, [Item 0 1], [])]"
    "getAvailableStock negative_waiting_system 0 = 0"
    by code_simp+
  with processRestock_negative_mass show ?thesis by simp
qed

text \<open>
  C7 as amended.  \<open>getPendingOrders\<close> returns exactly the rows whose status is \<open>PENDING\<close> or
  \<open>PARTIALLY_FULFILLED\<close>, by creation timestamp ascending, and \<open>processRestock\<close> attempts
  them one after the other in that order, each in the state that the attempts before it
  left, until one fails or does not return.  So let A and B be two of them, A created
  strictly before B (A then stands before B in the list), with distinct order ids in the
  table.  If the attempts for the orders before A return without an error and leave exactly
  one unit of product \<open>p\<close> in stock, A still lacks \<open>p\<close> and lists no product twice, no
  product that A lists has a negative unit mass and \<open>p\<close> is not heavier than a package may
  be, then the attempt for A returns without an error, the unit is shipped to A (its shipped
  quantity of \<open>p\<close> grows by one and the stock of \<open>p\<close> is 0) and B is as it was; and whenever
  \<open>processRestock\<close> returns, with or without an error, A has that unit, B has the shipped
  quantity of \<open>p\<close> that it had, and the stock of \<open>p\<close> is 0.
\<close>

theorem restock_serves_oldest_order_first:
  assumes ids: "distinct (map orderId (orderRows s))"
    and pending: "getPendingOrders (inventory_processRestock restock s) = (pending, s0)"
    and A: "A \<in> set pending" and B: "B \<in> set pending" and time: "createdAt A < createdAt B"
    and older: "attemptAll (takeWhile (\<lambda>row. row \<noteq> A) pending) s0 = Some (None, s1)"
    and unit: "getAvailableStock s1 p = 1"
    and need: "Item p q \<in> set (getRemainingItems A)"
    and once: "distinct (map productId (requestedItems A))"
    and masses: "\<forall>line\<in>set (requestedItems A). \<forall>product.
                   catalog s1 (productId line) = Some product \<longrightarrow> 0 \<le> massG product"
    and light: "\<forall>product. catalog s1 p = Some product \<longrightarrow> massG product \<le> MAX_PACKAGE_WEIGHT_G"
  shows "(\<forall>t. sorted (map createdAt (fst (getPendingOrders t)))
            \<and> set (fst (getPendingOrders t))
                = {row \<in> set (orderRows t). status row = PENDING \<or> status row = PARTIALLY_FULFILLED})
     \<and> processRestock restock s = attemptAll pending s0
     \<and> (\<forall>before order after t.
           attemptAll (before @ order # after) t
             = (case attemptAll before t of
                  None \<Rightarrow> None
                | Some (Some e, t1) \<Rightarrow> Some (Some e, t1)
                | Some (None, t1) \<Rightarrow>
                    (case attemptFulfillment order t1 of
                       None \<Rightarrow> None
                     | Some (Some e, t2) \<Rightarrow> Some (Some e, t2)
                     | Some (None, t2) \<Rightarrow> attemptAll after t2)))
     \<and> (\<exists>mid newer. pending = takeWhile (\<lambda>row. row \<noteq> A) pending @ A # mid @ B # newer)
     \<and> (\<exists>s2 A2. attemptAll (takeWhile (\<lambda>row. row \<noteq> A) pending @ [A]) s0 = Some (None, s2)
           \<and> getAvailableStock s2 p = 0
           \<and> findOrder s2 (orderId A) = Some A2
           \<and> shippedQuantity A2 p = shippedQuantity A p + 1
           \<and> findOrder s2 (orderId B) = Some B)
     \<and> (\<forall>e s'. processRestock restock s = Some (e, s') \<longrightarrow>
           getAvailableStock s' p = 0
           \<and> (\<exists>A' B'. findOrder s' (orderId A) = Some A'
                 \<and> shippedQuantity A' p = shippedQuantity A p + 1
                 \<and> findOrder s' (orderId B) = Some B'
                 \<and> shippedQuantity B' p = shippedQuantity B p))"
proof -
  define before where "before = takeWhile (\<lambda>row. row \<noteq> A) pending"
  note older = older [folded before_def]
  let ?s = "inventory_processRestock restock s"
  have W: "0 < MAX_PACKAGE_WEIGHT_G" by (simp add: MAX_PACKAGE_WEIGHT_G_def)
  \<comment> \<open>the list of pending orders\<close>
  from pending have list: "pending = fst (getPendingOrders ?s)" and s0: "s0 = snd (getPendingOrders ?s)"
    by simp_all
  from getPendingOrders_sorted [of ?s] list
  have sorted: "sorted (map createdAt pending)"
    and members: "set pending \<subseteq> set (orderRows ?s)" by auto
  from s0 have rows0: "orderRows s0 = orderRows s"
    by (simp add: getPendingOrders_def Let_def inventory_processRestock_orderRows)
  from members have members0: "set pending \<subseteq> set (orderRows s0)"
    by (simp add: rows0 inventory_processRestock_orderRows)
  from ids rows0 have ids0: "distinct (map orderId (orderRows s0))" by simp
  from ids list have d: "distinct (map orderId pending)"
    by (simp add: getPendingOrders_def Let_def distinct_map_sort_key distinct_map_filter
          inventory_processRestock_orderRows)
  from A have "dropWhile (\<lambda>row. row \<noteq> A) pending \<noteq> []" by simp
  moreover from this have "hd (dropWhile (\<lambda>row. row \<noteq> A) pending) = A"
    using hd_dropWhile [of "\<lambda>row. row \<noteq> A" pending] by simp
  ultimately obtain rest where "dropWhile (\<lambda>row. row \<noteq> A) pending = A # rest"
    by (cases "dropWhile (\<lambda>row. row \<noteq> A) pending") auto
  with takeWhile_dropWhile_id [of "\<lambda>row. row \<noteq> A" pending]
  have split: "pending = before @ A # rest" by (simp add: before_def)
  from sorted B have "sorted (map createdAt (before @ A # rest))" "B \<in> set (before @ A # rest)"
    unfolding split by simp_all
  from sorted_before [OF this time] have "B \<in> set rest" .
  then obtain mid newer where rest: "rest = mid @ B # newer"
    by (auto dest: split_list)
  from d have "distinct (map orderId (before @ A # rest))" unfolding split .
  with rest have idA: "orderId A \<notin> orderId ` set before"
    and idB: "orderId B \<notin> orderId ` set before" and idAB: "orderId B \<noteq> orderId A"
    by auto
  from members0 A B find_distinct_mem [OF ids0]
  have rowA0: "findOrder s0 (orderId A) = Some A" and rowB0: "findOrder s0 (orderId B) = Some B"
    by (auto simp: findOrder_def)
  \<comment> \<open>the attempts for the orders before A\<close>
  from attemptAll_others [OF older, where p = p] idA idB rowA0 rowB0
  have rowA1: "findOrder s1 (orderId A) = Some A" and rowB1: "findOrder s1 (orderId B) = Some B"
    by simp_all
  \<comment> \<open>the attempt for A\<close>
  let ?shippable = "getShippableItems s1 (getRemainingItems A)"
  from attemptFulfillment_succeeds [OF rowA1 once masses] obtain pkgs s2 A2 where
    pack: "packShipment s1 ?shippable MAX_PACKAGE_WEIGHT_G = Some pkgs"
    and attempt: "attemptFulfillment A s1 = Some (None, s2)"
    and others: "\<forall>other. other \<noteq> orderId A \<longrightarrow> findOrder s2 other = findOrder s1 other"
    and stock: "\<forall>p. getAvailableStock s2 p = getAvailableStock s1 p - qty_of p (concat pkgs)"
    and rowA2: "findOrder s2 (orderId A) = Some A2" "shipped_more A (concat pkgs) A2"
    by blast
  from unit obtain product where cat: "catalog s1 p = Some product"
    by (cases "catalog s1 p") (auto simp: getAvailableStock_def)
  from need getRemainingItems_ids [of A] have "p \<in> productId ` set (requestedItems A)"
    by force
  with masses cat have mass0: "0 \<le> massG product" by auto
  from light cat have mass1: "massG product \<le> MAX_PACKAGE_WEIGHT_G" by simp
  from need getRemainingItems_positive [of A] have q: "0 < q" by force
  with unit have "min q (getAvailableStock s1 p) = 1" by simp
  with getShippableItems_member [OF need, of s1] have mem: "Item p 1 \<in> set ?shippable" by simp
  from distinct_getRemainingItems [OF once] getShippableItems_distinct
  have "distinct (map productId ?shippable)" by blast
  from qty_of_distinct [OF this mem] have one: "qty_of p ?shippable = 1" by simp
  from cat have "getProduct s1 p = Some product" by (simp add: getProduct_def)
  from packShipment_exact [OF pack W this mass0 mass1 getShippableItems_positive] one
  have packed: "qty_of p (concat pkgs) = 1" by simp
  with stock unit have stock2: "getAvailableStock s2 p = 0" by simp
  from rowA2(2) packed have shippedA2: "shippedQuantity A2 p = shippedQuantity A p + 1"
    by (simp add: shipped_more_def)
  from others idAB rowB1 have rowB2: "findOrder s2 (orderId B) = Some B" by simp
  from attemptAll_append [OF older, of "[A]"] attempt
  have upto: "attemptAll (before @ [A]) s0 = Some (None, s2)" by simp
  \<comment> \<open>the attempts after A\<close>
  have run: "processRestock restock s = attemptAll pending s0"
    using pending by (simp add: processRestock_def fulfillPendingOrders_def)
  from attemptAll_append [OF upto, of rest] split
  have tail: "attemptAll pending s0 = attemptAll rest s2" by simp
  have final: "getAvailableStock s' p = 0
           \<and> (\<exists>A' B'. findOrder s' (orderId A) = Some A'
                 \<and> shippedQuantity A' p = shippedQuantity A p + 1
                 \<and> findOrder s' (orderId B) = Some B'
                 \<and> shippedQuantity B' p = shippedQuantity B p)"
    if "processRestock restock s = Some (e, s')" for e s'
  proof -
    from that run tail have "attemptAll rest s2 = Some (e, s')" by simp
    from attemptAll_others [OF this, where p = p] stock2 have u: "untouched p s2 s'" by simp
    from u rowA2(1) obtain A' where "findOrder s' (orderId A) = Some A'"
      "shippedQuantity A' p = shippedQuantity A2 p"
      unfolding untouched_def by blast
    moreover from u rowB2 obtain B' where "findOrder s' (orderId B) = Some B'"
      "shippedQuantity B' p = shippedQuantity B p"
      unfolding untouched_def by blast
    moreover from u stock2 have "getAvailableStock s' p = 0" by (simp add: untouched_def)
    ultimately show ?thesis using shippedA2 by auto
  qed
  have first: "\<forall>t. sorted (map createdAt (fst (getPendingOrders t)))
            \<and> set (fst (getPendingOrders t))
                = {row \<in> set (orderRows t). status row = PENDING \<or> status row = PARTIALLY_FULFILLED}"
    using getPendingOrders_sorted by blast
  have order: "\<exists>mid newer. pending = before @ A # mid @ B # newer"
    using split rest by blast
  have served: "\<exists>s2 A2. attemptAll (before @ [A]) s0 = Some (None, s2)
           \<and> getAvailableStock s2 p = 0
           \<and> findOrder s2 (orderId A) = Some A2
           \<and> shippedQuantity A2 p = shippedQuantity A p + 1
           \<and> findOrder s2 (orderId B) = Some B"
    using upto stock2 rowA2(1) shippedA2 rowB2 by blast
  from first run attemptAll_split order served final show ?thesis
    unfolding before_def by blast
qed

theorem restock_serves_oldest_order_first_witness:
  "fst (getPendingOrders restocked_queue_system)
     = [\<lparr>orderId = 6, requestedItems = [Item 1 1], shippedItems = [], status = PENDING,
          totalShipments = 0, createdAt = 5\<rparr>,
        \<lparr>orderId = 7, requestedItems = [Item 0 2, Item 1 1], shippedItems = [], status = PENDING,
          totalShipments = 0, createdAt = 10\<rparr>,
        \<lparr>orderId = 8, requestedItems = [Item 0 1], shippedItems = [], status = PENDING,
          totalShipments = 0, createdAt = 20\<rparr>,
        \<lparr>orderId = 9, requestedItems = [Item 0 3], shippedItems = [], status = PENDING,
          totalShipments = 0, createdAt = 30\<rparr>]
   \<and> getAvailableStock (snd (getPendingOrders restocked_queue_system)) 0 = 1
   \<and> (\<exists>s2 A2.
         attemptAll
           [\<lparr>orderId = 6, requestedItems = [Item 1 1], shippedItems = [], status = PENDING,
              totalShipments = 0, createdAt = 5\<rparr>,
            \<lparr>orderId = 7, requestedItems = [Item 0 2, Item 1 1], shippedItems = [],
              status = PENDING, totalShipments = 0, createdAt = 10\<rparr>]
           (snd (getPendingOrders restocked_queue_system)) = Some (None, s2)
         \<and> getAvailableStock s2 0 = 0
         \<and> findOrder s2 7 = Some A2 \<and> shippedQuantity A2 0 = 1
         \<and> findOrder s2 8
             = Some \<lparr>orderId = 8, requestedItems = [Item 0 1], shippedItems = [], status = PENDING,
                     totalShipments = 0, createdAt = 20\<rparr>)
   \<and> map_option (\<lambda>(e, s). (e, map (\<lambda>row. (orderId row, shippedItems row)) (orderRows s),
                              getAvailableStock s 0))
        (processRestock [(0, 1)] queue_system)
       = Some (None, [(6, []), (7, [Item 0 1]), (8, []), (9, [])], 0)"
proof -
  let ?r6 = "\<lparr>orderId = 6, requestedItems = [Item 1 1], shippedItems = [], status = PENDING,
          totalShipments = 0, createdAt = 5\<rparr>"
  let ?A = "\<lparr>orderId = 7, requestedItems = [Item 0 2, Item 1 1], shippedItems = [], status = PENDING,
          totalShipments = 0, createdAt = 10\<rparr>"
  let ?B = "\<lparr>orderId = 8, requestedItems = [Item 0 1], shippedItems = [], status = PENDING,
          totalShipments = 0, createdAt = 20\<rparr>"
  let ?r9 = "\<lparr>orderId = 9, requestedItems = [Item 0 3], shippedItems = [], status = PENDING,
          totalShipments = 0, createdAt = 30\<rparr>"
  let ?P = "fst (getPendingOrders restocked_queue_system)"
  let ?S = "snd (getPendingOrders restocked_queue_system)"
  have ids: "distinct (map orderId (orderRows queue_system))" by code_simp
  have pending: "getPendingOrders (inventory_processRestock [(0, 1)] queue_system) = (?P, ?S)"
    by (simp add: restocked_queue_system_def)
  have plist: "?P = [?r6, ?A, ?B, ?r9]" by code_simp
  have A: "?A \<in> set ?P" and B: "?B \<in> set ?P" by (simp_all add: plist)
  have time: "createdAt ?A < createdAt ?B" by simp
  have "getShippableItems ?S (getRemainingItems ?r6) = []" by code_simp
  then have "attemptFulfillment ?r6 ?S = Some (None, ?S)"
    by (simp add: attemptFulfillment_def Let_def)
  moreover have before: "takeWhile (\<lambda>row. row \<noteq> ?A) ?P = [?r6]" by (simp add: plist)
  ultimately have older: "attemptAll (takeWhile (\<lambda>row. row \<noteq> ?A) ?P) ?S = Some (None, ?S)"
    by simp
  have unit: "getAvailableStock ?S 0 = 1" by code_simp
  have need: "Item 0 2 \<in> set (getRemainingItems ?A)" by code_simp
  have once: "distinct (map productId (requestedItems ?A))" by simp
  have cat0: "map_option massG (catalog ?S 0) = Some 700"
    and cat1: "map_option massG (catalog ?S 1) = Some 1000" by code_simp+
  from cat0 cat1 have masses: "\<forall>line\<in>set (requestedItems ?A). \<forall>product.
                   catalog ?S (productId line) = Some product \<longrightarrow> 0 \<le> massG product"
    by auto
  from cat0 have light: "\<forall>product. catalog ?S 0 = Some product \<longrightarrow> massG product \<le> MAX_PACKAGE_WEIGHT_G"
    by (auto simp: MAX_PACKAGE_WEIGHT_G_def)
  have run: "map_option (\<lambda>(e, s). (e, map (\<lambda>row. (orderId row, shippedItems row)) (orderRows s),
                              getAvailableStock s 0))
        (processRestock [(0, 1)] queue_system)
       = Some (None, [(6, []), (7, [Item 0 1]), (8, []), (9, [])], 0)"
    by code_simp
  from restock_serves_oldest_order_first
         [OF ids pending A B time older unit need once masses light]
  have "\<exists>s2 A2. attemptAll (takeWhile (\<lambda>row. row \<noteq> ?A) ?P @ [?A]) ?S = Some (None, s2)
           \<and> getAvailableStock s2 0 = 0
           \<and> findOrder s2 (orderId ?A) = Some A2
           \<and> shippedQuantity A2 0 = shippedQuantity ?A 0 + 1
           \<and> findOrder s2 (orderId ?B) = Some ?B"
    by blast
  then have "\<exists>s2 A2. attemptAll [?r6, ?A] ?S = Some (None, s2)
         \<and> getAvailableStock s2 0 = 0
         \<and> findOrder s2 7 = Some A2 \<and> shippedQuantity A2 0 = 1
         \<and> findOrder s2 8 = Some ?B"
    unfolding before by (simp add: shippedQuantity_def)
  with plist unit run show ?thesis by blast
qed

section \<open>Properties: shipping in batches\<close>

lemma updateOrderShipment_found:
  assumes "findOrder s oid = Some order"
  shows "\<exists>s' order'. updateOrderShipment oid lines s = (None, s')
            \<and> findOrder s' oid = Some order'
            \<and> totalShipments order' = totalShipments order + 1
            \<and> catalog s' = catalog s"
proof -
  let ?order1 = "order\<lparr>shippedItems := foldl addItem (shippedItems order) lines,
                         totalShipments := totalShipments order + 1\<rparr>"
  let ?order' = "?order1\<lparr>status := (if isOrderFulfilled ?order1 then FULFILLED else PARTIALLY_FULFILLED)\<rparr>"
  from assms have "orderId ?order' = oid" by (simp add: findOrder_orderId)
  with assms show ?thesis
    by (simp add: updateOrderShipment_def Let_def findOrder_def find_saveOrderRow_same)
qed

lemma reserveStock_findOrder:
  "reserveStock items s = (e, s') \<Longrightarrow> findOrder s' oid = findOrder s oid"
  by (simp add: findOrder_def reserveStock_orderRows)

lemma shipPackages_totalShipments:
  "shipPackages oid pkgs s = (None, s') \<Longrightarrow> findOrder s oid = Some order \<Longrightarrow>
     \<exists>order'. findOrder s' oid = Some order'
        \<and> totalShipments order' = totalShipments order + int (length pkgs)"
proof (induction pkgs arbitrary: s order)
  case Nil
  then show ?case by simp
next
  case (Cons pkg rest)
  from Cons.prems(1) obtain s1 where one: "shipPackage oid pkg s = (None, s1)"
    and more: "shipPackages oid rest s1 = (None, s')"
    by (auto split: prod.splits option.splits)
  from one obtain s0 s2 where r: "reserveStock pkg s = (None, s0)"
    and ins: "insertShipments [\<lparr>s_orderId = oid, s_shippedItems = pkg,
                       totalMassG = calculateTotalMass s pkg\<rparr>] s0 = (None, s2)"
    and u: "updateOrderShipment oid pkg s2 = (None, s1)"
    by (auto simp: shipPackage_def Let_def split: if_splits prod.splits option.splits)
  from reserveStock_findOrder [OF r] insertShipments_orderRows [OF ins] Cons.prems(2)
  have "findOrder s2 oid = Some order"
    by (simp add: findOrder_def)
  from updateOrderShipment_found [OF this, of pkg] u obtain order1 where
    o1: "findOrder s1 oid = Some order1" "totalShipments order1 = totalShipments order + 1"
    by auto
  from Cons.IH [OF more o1(1)] o1(2) show ?case by auto
qed

lemma shipPackages_unit_packages:
  "catalog s p = Some product \<Longrightarrow> massG product \<le> MAX_PACKAGE_WEIGHT_G \<Longrightarrow>
     int n \<le> quantityInStock product \<Longrightarrow> findOrder s oid = Some order \<Longrightarrow>
     fst (shipPackages oid (replicate n [Item p 1]) s) = None"
proof (induction n arbitrary: s product order)
  case 0
  then show ?case by simp
next
  case (Suc n)
  let ?product' = "product\<lparr>quantityInStock := quantityInStock product - 1\<rparr>"
  let ?s0 = "saveProducts [p] (s\<lparr>catalog := (catalog s)(p \<mapsto> ?product')\<rparr>)"
  let ?s0' = "?s0\<lparr>shipmentRows := shipmentRows ?s0 @
                     [\<lparr>s_orderId = oid, s_shippedItems = [Item p 1],
                       totalMassG = calculateTotalMass s [Item p 1]\<rparr>]\<rparr>"
  from Suc.prems(1,3) have r: "reserveStock [Item p 1] s = (None, ?s0)"
    by (simp add: reserveStock_def)
  from Suc.prems(1,2) have mass: "\<not> calculateTotalMass s [Item p 1] > MAX_PACKAGE_WEIGHT_G"
    by (simp add: calculateTotalMass_def)
  from Suc.prems(4) have "findOrder ?s0' oid = Some order"
    by (simp add: findOrder_def)
  from updateOrderShipment_found [OF this, of "[Item p 1]"] obtain s1 order1 where
    u: "updateOrderShipment oid [Item p 1] ?s0' = (None, s1)"
    and o1: "findOrder s1 oid = Some order1" and c1: "catalog s1 = catalog ?s0'"
    by blast
  from Suc.prems(4) have "insertShipments [\<lparr>s_orderId = oid, s_shippedItems = [Item p 1],
                       totalMassG = calculateTotalMass s [Item p 1]\<rparr>] ?s0 = (None, ?s0')"
    by (simp add: insertShipments_def findOrder_def)
  with mass r u have one: "shipPackage oid [Item p 1] s = (None, s1)"
    by (simp add: shipPackage_def Let_def)
  from c1 have cat: "catalog s1 p = Some ?product'" by simp
  from Suc.prems(2) have m: "massG ?product' \<le> MAX_PACKAGE_WEIGHT_G" by simp
  from Suc.prems(3) have q: "int n \<le> quantityInStock ?product'" by simp
  from Suc.IH [OF cat m q o1] one show ?case by simp
qed

text \<open>
  C3 (the source does not do this): batch mode is meant to leave the state that shipping the
  same packages one at a time leaves.  Order 2 for 101 units of product 1 is packed into 101
  packages, so \<open>processOrder\<close> ships them in batches of 50.  \<open>updateOrderShipment\<close> adds one
  to \<open>totalShipments\<close> per call, and batch mode calls it once per batch: the order ends with
  a shipment count of 3, while \<open>shipPackages\<close> on the same packages from the same state ends
  with 101 (the 101 shipment rows are written in both modes).
\<close>

theorem batch_counts_chunks_not_packages:
  "packShipment queued_bulk_system [Item 1 101] 1800 = Some (replicate 101 [Item 1 1])
   \<and> map_option (\<lambda>(e, s). (e, map totalShipments (orderRows s), length (shipmentRows s)))
         (processOrder 2 [(1, 101)] 20 bulk_system) = Some (None, [3], 101)
   \<and> fst (batchShipPackages 2 (replicate 101 [Item 1 1]) queued_bulk_system) = None
   \<and> map totalShipments (orderRows (snd (batchShipPackages 2 (replicate 101 [Item 1 1]) queued_bulk_system)))
       = [3]
   \<and> fst (shipPackages 2 (replicate 101 [Item 1 1]) queued_bulk_system) = None
   \<and> map_option totalShipments
         (findOrder (snd (shipPackages 2 (replicate 101 [Item 1 1]) queued_bulk_system)) 2)
       = Some 101"
proof -
  have pack: "packShipment queued_bulk_system [Item 1 101] 1800 = Some (replicate 101 [Item 1 1])"
    by code_simp
  have whole: "map_option (\<lambda>(e, s). (e, map totalShipments (orderRows s), length (shipmentRows s)))
         (processOrder 2 [(1, 101)] 20 bulk_system) = Some (None, [3], 101)"
    by code_simp
  have batch: "fst (batchShipPackages 2 (replicate 101 [Item 1 1]) queued_bulk_system) = None"
    "map totalShipments (orderRows (snd (batchShipPackages 2 (replicate 101 [Item 1 1]) queued_bulk_system)))
       = [3]"
    by code_simp+
  have cat: "catalog queued_bulk_system 1
      = Some \<lparr>p_productId = 1, productName = ''Platelets A+'', massG = 1000, quantityInStock = 101\<rparr>"
    by (simp add: queued_bulk_system_def bulk_system_def enqueueOrder_def
          inventory_processRestock_def initialised_system_def initCatalog_def
          initial_system_def saveProducts_def Let_def)
  have found: "findOrder queued_bulk_system 2
      = Some \<lparr>orderId = 2, requestedItems = [Item 1 101], shippedItems = [], status = PENDING,
               totalShipments = 0, createdAt = 20\<rparr>"
    by code_simp
  from shipPackages_unit_packages [OF cat _ _ found, of 101]
  have ok: "fst (shipPackages 2 (replicate 101 [Item 1 1]) queued_bulk_system) = None"
    by (simp add: MAX_PACKAGE_WEIGHT_G_def)
  then have "shipPackages 2 (replicate 101 [Item 1 1]) queued_bulk_system
      = (None, snd (shipPackages 2 (replicate 101 [Item 1 1]) queued_bulk_system))"
    by (metis prod.collapse)
  from shipPackages_totalShipments [OF this found]
  have "map_option totalShipments
         (findOrder (snd (shipPackages 2 (replicate 101 [Item 1 1]) queued_bulk_system)) 2)
       = Some 101"
    by auto
  with pack whole batch ok show ?thesis by simp
qed

end
